theory Spec2Isabelle
  imports Main "HOL-Library.Sublist"
begin

section \<open>Python text primitives\<close>

text \<open>
  Strings are byte strings (UTF-8). The three generators render every drawn value with
  \<^verbatim>\<open>str(int)\<close>, glue a row with \<^verbatim>\<open>" ".join(...)\<close> and end it with a
  line feed.
\<close>

abbreviation nl :: char where
  "nl \<equiv> CHR 0x0A"

definition digit_char :: "nat \<Rightarrow> char" where
  "digit_char d = char_of (48 + d)"

fun str_nat :: "nat \<Rightarrow> string" where
  "str_nat k = (if k < 10 then [digit_char k] else str_nat (k div 10) @ [digit_char (k mod 10)])"

declare str_nat.simps [simp del]

definition str_int :: "int \<Rightarrow> string" where
  \<comment> \<open>\<^verbatim>\<open>str(i)\<close> for a Python int: decimal, a leading minus sign when negative.\<close>
  "str_int i = (if i < 0 then CHR ''-'' # str_nat (nat (- i)) else str_nat (nat i))"

fun str_join :: "string \<Rightarrow> string list \<Rightarrow> string" where
  \<comment> \<open>\<^verbatim>\<open>sep.join(xs)\<close>\<close>
  "str_join sep [] = []"
| "str_join sep [x] = x"
| "str_join sep (x # y # ys) = x @ sep @ str_join sep (y # ys)"

fun group3 :: "string \<Rightarrow> string" where
  \<comment> \<open>digits least significant first, a comma after every third one that has a successor\<close>
  "group3 (a # b # c # d # ds) = a # b # c # CHR '','' # group3 (d # ds)"
| "group3 ds = ds"

definition fmt_thousands :: "nat \<Rightarrow> string" where
  \<comment> \<open>the format specifier \<^verbatim>\<open>{s:,}\<close> on a non-negative int\<close>
  "fmt_thousands k = rev (group3 (rev (str_nat k)))"

definition path_join :: "string \<Rightarrow> string \<Rightarrow> string" where
  \<comment> \<open>\<^verbatim>\<open>os.path.join(a, b)\<close> on POSIX\<close>
  "path_join a b =
     (if b \<noteq> [] \<and> hd b = CHR ''/'' then b
      else if a = [] \<or> last a = CHR ''/'' then a @ b
      else a @ CHR ''/'' # b)"

definition py_lshift :: "int \<Rightarrow> int \<Rightarrow> int" where
  \<comment> \<open>\<^verbatim>\<open>x << k\<close> on Python ints for \<open>k \<ge> 0\<close>; every caller is behind the check of the bit width\<close>
  "py_lshift x k = push_bit (nat k) x"

subsection \<open>Reading a party file back\<close>

text \<open>
  The consumer of a party file reads whitespace-separated decimal integers. These
  functions are the reader against which the written files are judged:
  \<open>tokens\<close> is \<^verbatim>\<open>s.split()\<close>, \<open>file_lines\<close> cuts a text at its line feeds and
  insists that the last line is terminated, \<open>parse_int\<close> is \<^verbatim>\<open>int(t)\<close> on a plain
  decimal literal.
\<close>

definition is_space :: "char \<Rightarrow> bool" where
  "is_space c = (c = CHR '' '' \<or> c = CHR 0x09 \<or> c = CHR 0x0A \<or> c = CHR 0x0B \<or> c = CHR 0x0C \<or> c = CHR 0x0D)"

fun tokens :: "string \<Rightarrow> string list" where
  "tokens [] = []"
| "tokens (c # cs) =
     (if is_space c then tokens cs
      else if cs \<noteq> [] \<and> \<not> is_space (hd cs)
        then (case tokens cs of [] \<Rightarrow> [[c]] | t # ts \<Rightarrow> (c # t) # ts)
        else [c] # tokens cs)"

fun file_lines :: "string \<Rightarrow> string list option" where
  "file_lines [] = Some []"
| "file_lines (c # cs) =
     (if c = nl then map_option (Cons []) (file_lines cs)
      else (case file_lines cs of Some (l # ls) \<Rightarrow> Some ((c # l) # ls) | _ \<Rightarrow> None))"

definition digit_val :: "char \<Rightarrow> nat option" where
  "digit_val c = (let k = (of_char c :: nat) in if 48 \<le> k \<and> k \<le> 57 then Some (k - 48) else None)"

fun parse_digits :: "nat \<Rightarrow> string \<Rightarrow> nat option" where
  "parse_digits acc [] = Some acc"
| "parse_digits acc (c # cs) =
     (case digit_val c of None \<Rightarrow> None | Some d \<Rightarrow> parse_digits (10 * acc + d) cs)"

definition parse_int :: "string \<Rightarrow> int option" where
  "parse_int s =
     (case s of
        [] \<Rightarrow> None
      | c # cs \<Rightarrow>
          if c = CHR ''-''
          then (if cs = [] then None else map_option (\<lambda>k. - int k) (parse_digits 0 cs))
          else map_option int (parse_digits 0 s))"

fun parse_all :: "('a \<Rightarrow> 'b option) \<Rightarrow> 'a list \<Rightarrow> 'b list option" where
  "parse_all f [] = Some []"
| "parse_all f (x # xs) =
     (case f x of None \<Rightarrow> None
      | Some y \<Rightarrow> (case parse_all f xs of None \<Rightarrow> None | Some ys \<Rightarrow> Some (y # ys)))"

definition parse_row :: "string \<Rightarrow> int list option" where
  "parse_row l = parse_all parse_int (tokens l)"

definition parse_file :: "string \<Rightarrow> int list list option" where
  \<comment> \<open>the rows of integers of a party file, \<open>None\<close> when it is not one\<close>
  "parse_file c = (case file_lines c of None \<Rightarrow> None | Some ls \<Rightarrow> parse_all parse_row ls)"

definition has_shape :: "nat \<Rightarrow> nat \<Rightarrow> string \<Rightarrow> bool" where
  \<comment> \<open>exactly \<open>rows\<close> terminated lines, each of exactly \<open>cols\<close> integers\<close>
  "has_shape rows cols c =
     (case parse_file c of None \<Rightarrow> False
      | Some A \<Rightarrow> length A = rows \<and> list_all (\<lambda>row. length row = cols) A)"

section \<open>Value range\<close>

text \<open>
  All three scripts derive the sampling interval from the bit width and the signedness
  with the same four assignments (\<^verbatim>\<open>gen_activation_inputs.py\<close> lines 38-43,
  \<^verbatim>\<open>gen_conv_inputs.py\<close> lines 44-49, \<^verbatim>\<open>gen_linear_inputs.py\<close> lines 32-37).
\<close>

definition value_range :: "int \<Rightarrow> bool \<Rightarrow> int \<times> int" where
  "value_range b s =
     (if s then (- (py_lshift 1 (b - 1)), py_lshift 1 (b - 1) - 1)
      else (0, py_lshift 1 b - 1))"

section \<open>The process and its environment\<close>

text \<open>
  A run acts on the file system, on the state of the process-wide generator of the
  \<^verbatim>\<open>random\<close> module and on standard output. The file system has two parts:
  \<open>file_of\<close> gives the file that a path names, as a label of that file (relative
  names, \<^verbatim>\<open>.\<close>, \<^verbatim>\<open>..\<close>, symbolic and hard links resolved), so two paths
  name the same file exactly when their labels are equal, and \<open>files\<close> gives the bytes
  of each regular file under its label. A run changes no name. The generator is a
  library, not part of the scripts: it enters as a parameter \<open>R\<close> with the two
  entry points the scripts call. The operating system decides which system calls fail;
  it enters as the predicate \<open>E\<close> on calls. A write to a file that has been opened
  is taken to succeed.
\<close>

record 'g world =
  file_of :: "string \<Rightarrow> string"
  files :: "string \<rightharpoonup> string"
  rng :: 'g
  stdout :: "string list"

record 'g random =
  random_seed :: "int \<Rightarrow> 'g"
  random_randint :: "int \<Rightarrow> int \<Rightarrow> 'g \<Rightarrow> int \<times> 'g"

datatype call = Makedirs string | OpenW string | Stat string | Print string

datatype exn = SystemExit string | OSError call

fun is_Exception :: "exn \<Rightarrow> bool" where
  \<comment> \<open>\<^verbatim>\<open>SystemExit\<close> derives from \<^verbatim>\<open>BaseException\<close> only\<close>
  "is_Exception (SystemExit m) = False"
| "is_Exception (OSError c) = True"

type_synonym ('g, 'a) io = "'g world \<Rightarrow> (exn + 'a) \<times> 'g world"

definition bind_io :: "('g, 'a) io \<Rightarrow> ('a \<Rightarrow> ('g, 'b) io) \<Rightarrow> ('g, 'b) io" where
  "bind_io m f w = (case m w of (Inl e, w1) \<Rightarrow> (Inl e, w1) | (Inr x, w1) \<Rightarrow> f x w1)"

definition try_except_pass :: "('g, unit) io \<Rightarrow> ('g, unit) io" where
  \<comment> \<open>\<^verbatim>\<open>try: m  except Exception: pass\<close>\<close>
  "try_except_pass m w =
     (case m w of
        (Inl e, w1) \<Rightarrow> if is_Exception e then (Inr (), w1) else (Inl e, w1)
      | (Inr x, w1) \<Rightarrow> (Inr (), w1))"

definition os_makedirs :: "(call \<Rightarrow> bool) \<Rightarrow> string \<Rightarrow> ('g, unit) io" where
  \<comment> \<open>\<^verbatim>\<open>os.makedirs(d, exist_ok=True)\<close>; directories are not tracked\<close>
  "os_makedirs E d w = (if E (Makedirs d) then (Inl (OSError (Makedirs d)), w) else (Inr (), w))"

definition open_w :: "(call \<Rightarrow> bool) \<Rightarrow> string \<Rightarrow> ('g, unit) io" where
  \<comment> \<open>\<^verbatim>\<open>open(p, "w")\<close>: creates or truncates the file that \<open>p\<close> names\<close>
  "open_w E p w =
     (if E (OpenW p) then (Inl (OSError (OpenW p)), w)
      else (Inr (), w\<lparr>files := (files w)(file_of w p \<mapsto> [])\<rparr>))"

definition f_write :: "string \<Rightarrow> string \<Rightarrow> 'g world \<Rightarrow> 'g world" where
  \<comment> \<open>\<^verbatim>\<open>f.write(s)\<close> on the file opened at \<open>p\<close>\<close>
  "f_write p s w =
     w\<lparr>files := (files w)(file_of w p \<mapsto>
          (case files w (file_of w p) of None \<Rightarrow> [] | Some c \<Rightarrow> c) @ s)\<rparr>"

definition path_stat_size :: "(call \<Rightarrow> bool) \<Rightarrow> string \<Rightarrow> ('g, nat) io" where
  \<comment> \<open>\<^verbatim>\<open>Path(p).stat().st_size\<close>\<close>
  "path_stat_size E p w =
     (if E (Stat p) then (Inl (OSError (Stat p)), w)
      else (case files w (file_of w p) of
              None \<Rightarrow> (Inl (OSError (Stat p)), w)
            | Some c \<Rightarrow> (Inr (length c), w)))"

definition print :: "(call \<Rightarrow> bool) \<Rightarrow> string \<Rightarrow> ('g, unit) io" where
  "print E s w =
     (if E (Print s) then (Inl (OSError (Print s)), w)
      else (Inr (), w\<lparr>stdout := stdout w @ [s]\<rparr>))"

definition r :: "'g random \<Rightarrow> int \<Rightarrow> int \<Rightarrow> 'g world \<Rightarrow> int \<times> 'g world" where
  \<comment> \<open>the local \<^verbatim>\<open>def r(): return random.randint(lo, hi)\<close>\<close>
  "r R lo hi w = (case random_randint R lo hi (rng w) of (v, g) \<Rightarrow> (v, w\<lparr>rng := g\<rparr>))"

fun str_r_range :: "'g random \<Rightarrow> int \<Rightarrow> int \<Rightarrow> nat \<Rightarrow> 'g world \<Rightarrow> string list \<times> 'g world" where
  \<comment> \<open>the generator \<^verbatim>\<open>str(r()) for _ in range(k)\<close>, consumed in order\<close>
  "str_r_range R lo hi 0 w = ([], w)"
| "str_r_range R lo hi (Suc k) w =
     (case r R lo hi w of (v, w1) \<Rightarrow>
        (case str_r_range R lo hi k w1 of (ss, w2) \<Rightarrow> (str_int v # ss, w2)))"

definition write_row :: "'g random \<Rightarrow> int \<Rightarrow> int \<Rightarrow> string \<Rightarrow> int \<Rightarrow> 'g world \<Rightarrow> 'g world" where
  \<comment> \<open>\<^verbatim>\<open>f.write(" ".join(str(r()) for _ in range(cols))); f.write("\n")\<close>\<close>
  "write_row R lo hi p cols w =
     (case str_r_range R lo hi (nat cols) w of
        (ss, w1) \<Rightarrow> f_write p [nl] (f_write p (str_join '' '' ss) w1))"

fun write_rows :: "'g random \<Rightarrow> int \<Rightarrow> int \<Rightarrow> string \<Rightarrow> int \<Rightarrow> nat \<Rightarrow> 'g world \<Rightarrow> 'g world" where
  \<comment> \<open>\<^verbatim>\<open>for _ in range(rows):\<close> one row each\<close>
  "write_rows R lo hi p cols 0 w = w"
| "write_rows R lo hi p cols (Suc k) w = write_rows R lo hi p cols k (write_row R lo hi p cols w)"

fun write_values :: "'g random \<Rightarrow> int \<Rightarrow> int \<Rightarrow> string \<Rightarrow> nat \<Rightarrow> 'g world \<Rightarrow> 'g world" where
  \<comment> \<open>\<^verbatim>\<open>for _ in range(LEN): f0.write(f"{r()}\n")\<close>\<close>
  "write_values R lo hi p 0 w = w"
| "write_values R lo hi p (Suc k) w =
     (case r R lo hi w of (v, w1) \<Rightarrow> write_values R lo hi p k (f_write p (str_int v @ [nl]) w1))"

definition check_mark :: string where
  \<comment> \<open>U+2714 in UTF-8\<close>
  "check_mark = [CHR 0xE2, CHR 0x9C, CHR 0x94]"

definition rng_desc :: "int \<Rightarrow> int \<Rightarrow> string" where
  "rng_desc lo hi = ''['' @ str_int lo @ '', '' @ str_int hi @ '']''"

definition wrote_line :: "string \<Rightarrow> string \<Rightarrow> nat \<Rightarrow> string" where
  "wrote_line party p s =
     check_mark @ '' Wrote '' @ party @ '': '' @ p @ ''  ('' @ fmt_thousands s @ '' bytes)''"

definition bits_msg :: string where
  "bits_msg = ''bits must be between 1 and 31 for practical decimal I/O sizes.''"

section \<open>Command lines\<close>

text \<open>
  The namespace that \<^verbatim>\<open>parse_args\<close> returns. The options shared by the three
  scripts come first; \<open>dim_n\<close> is \<^verbatim>\<open>args.n\<close>.
\<close>

record common_args =
  seed :: int
  bits :: int
  signed :: bool
  dir :: string
  p0_file :: string

record activation_args = common_args +
  len :: int
  unsigned :: bool

record party1_args = common_args +
  p1_file :: string

record conv_args = party1_args +
  a_rows :: int
  a_cols :: int
  w_dim :: int

record linear_args = party1_args +
  dim_n :: int

text \<open>
  What was typed for \<^verbatim>\<open>gen_activation_inputs.py\<close>: an option is \<open>None\<close> when
  absent, a flag is \<open>True\<close> when present. \<^verbatim>\<open>--signed\<close> is a
  \<^verbatim>\<open>store_true\<close> flag whose default is already \<^verbatim>\<open>True\<close>.
\<close>

record activation_cmdline =
  opt_len :: "int option"
  opt_seed :: "int option"
  opt_bits :: "int option"
  flag_signed :: bool
  flag_unsigned :: bool
  opt_dir :: "string option"
  opt_p0_file :: "string option"

definition or_default :: "'a option \<Rightarrow> 'a \<Rightarrow> 'a" where
  "or_default x d = (case x of None \<Rightarrow> d | Some v \<Rightarrow> v)"

definition activation_parse_args :: "activation_cmdline \<Rightarrow> activation_args" where
  "activation_parse_args c =
     \<lparr>seed = or_default (opt_seed c) 42,
      bits = or_default (opt_bits c) 16,
      signed = (if flag_signed c then True else True),
      dir = or_default (opt_dir c) ''Player-Data'',
      p0_file = or_default (opt_p0_file c) ''Input-P0-0'',
      len = or_default (opt_len c) 1024,
      unsigned = (if flag_unsigned c then True else False)\<rparr>"

section \<open>The three generators\<close>

text \<open>
  Each \<^verbatim>\<open>main\<close> is split where its \<^verbatim>\<open>try\<close> block starts: \<open>_generate\<close> is
  everything up to the last write and returns what the summary needs (the range and the
  paths), \<open>_summary\<close> is the body of the \<^verbatim>\<open>try\<close>, and \<open>_main\<close> runs the
  first and then the second under \<^verbatim>\<open>except Exception: pass\<close>. The result
  \<open>Inr ()\<close> says that \<^verbatim>\<open>main\<close> has returned.
\<close>

subsection \<open>\<^verbatim>\<open>gen_activation_inputs.py\<close>\<close>

definition activation_generate ::
  "'g random \<Rightarrow> (call \<Rightarrow> bool) \<Rightarrow> activation_args \<Rightarrow> ('g, (int \<times> int) \<times> string) io" where
  "activation_generate R E a w =
     (if len a \<le> 0 then (Inl (SystemExit ''LEN must be positive.''), w)
      else
        let w1 = w\<lparr>rng := random_seed R (seed a)\<rparr> in
        if bits a \<le> 0 \<or> bits a > 31 then (Inl (SystemExit bits_msg), w1)
        else
          let use_signed = (signed a \<and> \<not> unsigned a);
              (lo, hi) = value_range (bits a) use_signed
          in case os_makedirs E (dir a) w1 of
               (Inl e, w2) \<Rightarrow> (Inl e, w2)
             | (Inr u, w2) \<Rightarrow>
                 let p0_path = path_join (dir a) (p0_file a)
                 in case open_w E p0_path w2 of
                      (Inl e, w3) \<Rightarrow> (Inl e, w3)
                    | (Inr u, w3) \<Rightarrow>
                        (Inr ((lo, hi), p0_path),
                         write_values R lo hi p0_path (nat (len a)) w3))"

definition activation_summary ::
  "(call \<Rightarrow> bool) \<Rightarrow> activation_args \<Rightarrow> int \<Rightarrow> int \<Rightarrow> string \<Rightarrow> ('g, unit) io" where
  "activation_summary E a lo hi p0_path =
     bind_io (path_stat_size E p0_path) (\<lambda>s0.
     bind_io (print E (wrote_line ''Party0'' p0_path s0)) (\<lambda>u.
       print E (''   LEN='' @ str_int (len a) @ ''; value range: '' @ rng_desc lo hi)))"

definition activation_main ::
  "'g random \<Rightarrow> (call \<Rightarrow> bool) \<Rightarrow> activation_args \<Rightarrow> ('g, unit) io" where
  "activation_main R E a =
     bind_io (activation_generate R E a) (\<lambda>((lo, hi), p0_path).
       try_except_pass (activation_summary E a lo hi p0_path))"

subsection \<open>\<^verbatim>\<open>gen_conv_inputs.py\<close>\<close>

definition positive_msg :: string where
  "positive_msg = ''A_ROWS, A_COLS, and W_DIM must be positive.''"

definition valid_conv_msg :: "int \<Rightarrow> int \<Rightarrow> int \<Rightarrow> string" where
  "valid_conv_msg W_DIM A_ROWS A_COLS =
     ''W_DIM='' @ str_int W_DIM @ '' must be <= A_ROWS='' @ str_int A_ROWS
       @ '' and <= A_COLS='' @ str_int A_COLS @ '' (valid conv).''"

definition conv_generate ::
  "'g random \<Rightarrow> (call \<Rightarrow> bool) \<Rightarrow> conv_args \<Rightarrow> ('g, (int \<times> int) \<times> string \<times> string) io" where
  "conv_generate R E a w =
     (if a_rows a \<le> 0 \<or> a_cols a \<le> 0 \<or> w_dim a \<le> 0 then (Inl (SystemExit positive_msg), w)
      else if w_dim a > a_rows a \<or> w_dim a > a_cols a
        then (Inl (SystemExit (valid_conv_msg (w_dim a) (a_rows a) (a_cols a))), w)
      else
        let w1 = w\<lparr>rng := random_seed R (seed a)\<rparr> in
        if bits a \<le> 0 \<or> bits a > 31 then (Inl (SystemExit bits_msg), w1)
        else
          let (lo, hi) = value_range (bits a) (signed a)
          in case os_makedirs E (dir a) w1 of
               (Inl e, w2) \<Rightarrow> (Inl e, w2)
             | (Inr u, w2) \<Rightarrow>
                 let p0_path = path_join (dir a) (p0_file a);
                     p1_path = path_join (dir a) (p1_file a)
                 in case open_w E p0_path w2 of
                      (Inl e, w3) \<Rightarrow> (Inl e, w3)
                    | (Inr u, w3) \<Rightarrow>
                        let w4 = write_rows R lo hi p0_path (a_cols a) (nat (a_rows a)) w3
                        in case open_w E p1_path w4 of
                             (Inl e, w5) \<Rightarrow> (Inl e, w5)
                           | (Inr u, w5) \<Rightarrow>
                               (Inr ((lo, hi), p0_path, p1_path),
                                write_rows R lo hi p1_path (w_dim a) (nat (w_dim a)) w5))"

definition conv_summary ::
  "(call \<Rightarrow> bool) \<Rightarrow> conv_args \<Rightarrow> int \<Rightarrow> int \<Rightarrow> string \<Rightarrow> string \<Rightarrow> ('g, unit) io" where
  "conv_summary E a lo hi p0_path p1_path =
     bind_io (path_stat_size E p0_path) (\<lambda>s0.
     bind_io (path_stat_size E p1_path) (\<lambda>s1.
       let out_r = a_rows a - w_dim a + 1;
           out_c = a_cols a - w_dim a + 1
       in bind_io (print E (wrote_line ''Party0'' p0_path s0)) (\<lambda>u.
          bind_io (print E (wrote_line ''Party1'' p1_path s1)) (\<lambda>u.
            print E (''   Shapes: A='' @ str_int (a_rows a) @ ''x'' @ str_int (a_cols a)
                     @ '', W='' @ str_int (w_dim a) @ ''x'' @ str_int (w_dim a)
                     @ '', out='' @ str_int out_r @ ''x'' @ str_int out_c
                     @ ''; value range: '' @ rng_desc lo hi)))))"

definition conv_main :: "'g random \<Rightarrow> (call \<Rightarrow> bool) \<Rightarrow> conv_args \<Rightarrow> ('g, unit) io" where
  "conv_main R E a =
     bind_io (conv_generate R E a) (\<lambda>((lo, hi), p0_path, p1_path).
       try_except_pass (conv_summary E a lo hi p0_path p1_path))"

subsection \<open>\<^verbatim>\<open>gen_linear_inputs.py\<close>\<close>

definition linear_generate ::
  "'g random \<Rightarrow> (call \<Rightarrow> bool) \<Rightarrow> linear_args \<Rightarrow> ('g, (int \<times> int) \<times> string \<times> string) io" where
  "linear_generate R E a w =
     (let w1 = w\<lparr>rng := random_seed R (seed a)\<rparr> in
      if bits a \<le> 0 \<or> bits a > 31 then (Inl (SystemExit bits_msg), w1)
      else
        let (lo, hi) = value_range (bits a) (signed a)
        in case os_makedirs E (dir a) w1 of
             (Inl e, w2) \<Rightarrow> (Inl e, w2)
           | (Inr u, w2) \<Rightarrow>
               let p0_path = path_join (dir a) (p0_file a);
                   p1_path = path_join (dir a) (p1_file a)
               in case open_w E p0_path w2 of
                    (Inl e, w3) \<Rightarrow> (Inl e, w3)
                  | (Inr u, w3) \<Rightarrow>
                      let w4 = write_row R lo hi p0_path (dim_n a) w3
                      in case open_w E p1_path w4 of
                           (Inl e, w5) \<Rightarrow> (Inl e, w5)
                         | (Inr u, w5) \<Rightarrow>
                             let w6 = write_rows R lo hi p1_path (dim_n a) (nat (dim_n a)) w5
                             in (Inr ((lo, hi), p0_path, p1_path),
                                 write_row R lo hi p1_path (dim_n a) w6))"

definition linear_summary ::
  "(call \<Rightarrow> bool) \<Rightarrow> linear_args \<Rightarrow> int \<Rightarrow> int \<Rightarrow> string \<Rightarrow> string \<Rightarrow> ('g, unit) io" where
  "linear_summary E a lo hi p0_path p1_path =
     bind_io (path_stat_size E p0_path) (\<lambda>s0.
     bind_io (path_stat_size E p1_path) (\<lambda>s1.
     bind_io (print E (wrote_line ''Party0'' p0_path s0)) (\<lambda>u.
     bind_io (print E (wrote_line ''Party1'' p1_path s1)) (\<lambda>u.
       print E (''   Shapes: x='' @ str_int (dim_n a) @ '', W='' @ str_int (dim_n a) @ ''x''
                @ str_int (dim_n a) @ '', b='' @ str_int (dim_n a)
                @ ''; value range: '' @ rng_desc lo hi)))))"

definition linear_main :: "'g random \<Rightarrow> (call \<Rightarrow> bool) \<Rightarrow> linear_args \<Rightarrow> ('g, unit) io" where
  "linear_main R E a =
     bind_io (linear_generate R E a) (\<lambda>((lo, hi), p0_path, p1_path).
       try_except_pass (linear_summary E a lo hi p0_path p1_path))"

subsection \<open>A scenario is one of the three\<close>

datatype scenario =
  Threshold activation_args
| Convolution conv_args
| Linear linear_args

fun run :: "'g random \<Rightarrow> (call \<Rightarrow> bool) \<Rightarrow> scenario \<Rightarrow> ('g, unit) io" where
  "run R E (Threshold a) = activation_main R E a"
| "run R E (Convolution a) = conv_main R E a"
| "run R E (Linear a) = linear_main R E a"

fun generate :: "'g random \<Rightarrow> (call \<Rightarrow> bool) \<Rightarrow> scenario \<Rightarrow> ('g, unit) io" where
  \<comment> \<open>the run up to the end of the last \<^verbatim>\<open>with\<close> block\<close>
  "generate R E (Threshold a) = bind_io (activation_generate R E a) (\<lambda>x w. (Inr (), w))"
| "generate R E (Convolution a) = bind_io (conv_generate R E a) (\<lambda>x w. (Inr (), w))"
| "generate R E (Linear a) = bind_io (linear_generate R E a) (\<lambda>x w. (Inr (), w))"

fun shape_dims :: "scenario \<Rightarrow> int list" where
  "shape_dims (Threshold a) = [len a]"
| "shape_dims (Convolution a) = [a_rows a, a_cols a, w_dim a]"
| "shape_dims (Linear a) = [dim_n a]"

fun bit_width :: "scenario \<Rightarrow> int" where
  "bit_width (Threshold a) = bits a"
| "bit_width (Convolution a) = bits a"
| "bit_width (Linear a) = bits a"

fun draw_range :: "scenario \<Rightarrow> int \<times> int" where
  \<comment> \<open>the \<^verbatim>\<open>lo\<close> and \<^verbatim>\<open>hi\<close> of the run\<close>
  "draw_range (Threshold a) = value_range (bits a) (signed a \<and> \<not> unsigned a)"
| "draw_range (Convolution a) = value_range (bits a) (signed a)"
| "draw_range (Linear a) = value_range (bits a) (signed a)"

fun prng_seed :: "scenario \<Rightarrow> int" where
  "prng_seed (Threshold a) = seed a"
| "prng_seed (Convolution a) = seed a"
| "prng_seed (Linear a) = seed a"

fun output_paths :: "scenario \<Rightarrow> string list" where
  \<comment> \<open>the party files in the order they are written\<close>
  "output_paths (Threshold a) = [path_join (dir a) (p0_file a)]"
| "output_paths (Convolution a) = [path_join (dir a) (p0_file a), path_join (dir a) (p1_file a)]"
| "output_paths (Linear a) = [path_join (dir a) (p0_file a), path_join (dir a) (p1_file a)]"

fun draw_counts :: "scenario \<Rightarrow> nat list" where
  \<comment> \<open>how many values each party file receives\<close>
  "draw_counts (Threshold a) = [nat (len a)]"
| "draw_counts (Convolution a) = [nat (a_rows a) * nat (a_cols a), nat (w_dim a) * nat (w_dim a)]"
| "draw_counts (Linear a) = [nat (dim_n a), nat (dim_n a) * nat (dim_n a) + nat (dim_n a)]"

section \<open>The sequence of draws\<close>

fun draws :: "'g random \<Rightarrow> int \<Rightarrow> int \<Rightarrow> nat \<Rightarrow> 'g \<Rightarrow> int list" where
  \<comment> \<open>the first \<open>k\<close> results of \<^verbatim>\<open>random.randint(lo, hi)\<close> from state \<open>g\<close>\<close>
  "draws R lo hi 0 g = []"
| "draws R lo hi (Suc k) g =
     (case random_randint R lo hi g of (v, g1) \<Rightarrow> v # draws R lo hi k g1)"

fun advance :: "'g random \<Rightarrow> int \<Rightarrow> int \<Rightarrow> nat \<Rightarrow> 'g \<Rightarrow> 'g" where
  \<comment> \<open>the generator state after \<open>k\<close> draws\<close>
  "advance R lo hi 0 g = g"
| "advance R lo hi (Suc k) g = advance R lo hi k (snd (random_randint R lo hi g))"

definition randint_in_range :: "'g random \<Rightarrow> bool" where
  \<comment> \<open>the documented contract of \<^verbatim>\<open>random.randint\<close>: \<open>lo \<le> N \<le> hi\<close>\<close>
  "randint_in_range R \<longleftrightarrow>
     (\<forall>lo hi g. lo \<le> hi \<longrightarrow> lo \<le> fst (random_randint R lo hi g) \<and> fst (random_randint R lo hi g) \<le> hi)"

subsection \<open>A small generator to run the model on\<close>

definition lcg :: "nat random" where
  \<comment> \<open>a linear congruential generator modulo 64, in place of the library's Mersenne Twister\<close>
  "lcg = \<lparr>random_seed = (\<lambda>s. nat \<bar>s\<bar> mod 64),
          random_randint = (\<lambda>lo hi g. (lo + int g mod (hi - lo + 1), (13 * g + 7) mod 64))\<rparr>"

definition no_fault :: "call \<Rightarrow> bool" where
  "no_fault c = False"

definition world0 :: "nat world" where
  \<comment> \<open>every path names a file of its own, no files, nothing printed\<close>
  "world0 = \<lparr>file_of = (\<lambda>p. p), files = Map.empty, rng = 0, stdout = []\<rparr>"

section \<open>What a run is expected to leave behind\<close>

definition word :: "string \<Rightarrow> bool" where
  \<comment> \<open>a non-empty string without whitespace\<close>
  "word t \<longleftrightarrow> t \<noteq> [] \<and> (\<forall>c\<in>set t. \<not> is_space c)"

definition file_at :: "'g world \<Rightarrow> string \<Rightarrow> string option" where
  \<comment> \<open>the bytes of the file that the path names, \<open>None\<close> when there is no such file\<close>
  "file_at w p = files w (file_of w p)"

definition content :: "'g world \<Rightarrow> string \<Rightarrow> string" where
  "content w p = (case file_at w p of None \<Rightarrow> [] | Some c \<Rightarrow> c)"

definition row_text :: "int list \<Rightarrow> string" where
  "row_text vs = str_join '' '' (map str_int vs) @ [nl]"

definition matrix_text :: "int list list \<Rightarrow> string" where
  "matrix_text A = concat (map row_text A)"

fun chunks :: "nat \<Rightarrow> nat \<Rightarrow> 'a list \<Rightarrow> 'a list list" where
  \<comment> \<open>the first \<open>k\<close> rows of \<open>c\<close> elements of a row-major list\<close>
  "chunks c 0 xs = []"
| "chunks c (Suc k) xs = take c xs # chunks c k (drop c xs)"

definition file_ints :: "string \<Rightarrow> int list option" where
  \<comment> \<open>every integer of a file in reading order: \<^verbatim>\<open>[int(t) for t in text.split()]\<close>\<close>
  "file_ints c = parse_all parse_int (tokens c)"

definition all_draws :: "'g random \<Rightarrow> scenario \<Rightarrow> int list" where
  \<comment> \<open>the values the run draws after seeding, in the order it draws them\<close>
  "all_draws R sc =
     draws R (fst (draw_range sc)) (snd (draw_range sc)) (sum_list (draw_counts sc))
       (random_seed R (prng_seed sc))"

fun party_texts :: "'g random \<Rightarrow> scenario \<Rightarrow> string list" where
  \<comment> \<open>the layout of each party file over the sequence of draws, in the order of writing\<close>
  "party_texts R (Threshold a) =
     [matrix_text (chunks 1 (nat (len a)) (all_draws R (Threshold a)))]"
| "party_texts R (Convolution a) =
     (let ds = all_draws R (Convolution a); k0 = nat (a_rows a) * nat (a_cols a)
      in [matrix_text (chunks (nat (a_cols a)) (nat (a_rows a)) (take k0 ds)),
          matrix_text (chunks (nat (w_dim a)) (nat (w_dim a)) (drop k0 ds))])"
| "party_texts R (Linear a) =
     (let ds = all_draws R (Linear a); k = nat (dim_n a)
      in [matrix_text (chunks k 1 (take k ds)),
          matrix_text (chunks k (Suc k) (drop k ds))])"

fun store_all :: "(string \<times> string) list \<Rightarrow> (string \<rightharpoonup> string) \<Rightarrow> (string \<rightharpoonup> string)" where
  \<comment> \<open>the files after writing each text under its name, a later one replacing an earlier one\<close>
  "store_all [] m = m"
| "store_all ((p, c) # ps) m = store_all ps (m(p \<mapsto> c))"

definition mentions :: "string \<Rightarrow> string \<Rightarrow> bool" where
  \<comment> \<open>the message contains the name\<close>
  "mentions msg name = sublist name msg"

fun accepted :: "scenario \<Rightarrow> bool" where
  \<comment> \<open>the parameters pass every check of the script's \<^verbatim>\<open>main\<close>\<close>
  "accepted (Threshold a) \<longleftrightarrow> 0 < len a \<and> 1 \<le> bits a \<and> bits a \<le> 31"
| "accepted (Convolution a) \<longleftrightarrow>
     0 < a_rows a \<and> 0 < a_cols a \<and> 0 < w_dim a \<and> w_dim a \<le> a_rows a \<and> w_dim a \<le> a_cols a
     \<and> 1 \<le> bits a \<and> bits a \<le> 31"
| "accepted (Linear a) \<longleftrightarrow> 1 \<le> bits a \<and> bits a \<le> 31"

fun out_dir :: "scenario \<Rightarrow> string" where
  "out_dir (Threshold a) = dir a"
| "out_dir (Convolution a) = dir a"
| "out_dir (Linear a) = dir a"

definition os_permits :: "(call \<Rightarrow> bool) \<Rightarrow> scenario \<Rightarrow> bool" where
  \<comment> \<open>the directory can be made and every party file can be opened for writing\<close>
  "os_permits E sc \<longleftrightarrow>
     \<not> E (Makedirs (out_dir sc)) \<and> list_all (\<lambda>p. \<not> E (OpenW p)) (output_paths sc)"

definition stat_fault :: "call \<Rightarrow> bool" where
  \<comment> \<open>an environment in which every \<^verbatim>\<open>stat\<close> fails and nothing else does\<close>
  "stat_fault c = (case c of Stat p \<Rightarrow> True | _ \<Rightarrow> False)"

fun same_file :: "'g world \<Rightarrow> scenario \<Rightarrow> bool" where
  \<comment> \<open>the party-0 path and the party-1 path name one and the same file\<close>
  "same_file w (Threshold a) \<longleftrightarrow> False"
| "same_file w (Convolution a) \<longleftrightarrow>
     file_of w (path_join (dir a) (p0_file a)) = file_of w (path_join (dir a) (p1_file a))"
| "same_file w (Linear a) \<longleftrightarrow>
     file_of w (path_join (dir a) (p0_file a)) = file_of w (path_join (dir a) (p1_file a))"

fun same_config :: "scenario \<Rightarrow> scenario \<Rightarrow> bool" where
  \<comment> \<open>the same generator with the same seed, shape, bit width and signedness\<close>
  "same_config (Threshold a) (Threshold b) \<longleftrightarrow>
     seed a = seed b \<and> len a = len b \<and> bits a = bits b
     \<and> (signed a \<and> \<not> unsigned a) = (signed b \<and> \<not> unsigned b)"
| "same_config (Convolution a) (Convolution b) \<longleftrightarrow>
     seed a = seed b \<and> a_rows a = a_rows b \<and> a_cols a = a_cols b \<and> w_dim a = w_dim b
     \<and> bits a = bits b \<and> signed a = signed b"
| "same_config (Linear a) (Linear b) \<longleftrightarrow>
     seed a = seed b \<and> dim_n a = dim_n b \<and> bits a = bits b \<and> signed a = signed b"
| "same_config sc1 sc2 \<longleftrightarrow> False"

section \<open>Example command lines\<close>

definition conv_example :: conv_args where
  \<comment> \<open>\<^verbatim>\<open>--seed 42 --bits 4 --a-rows 3 --a-cols 3 --w-dim 2\<close>\<close>
  "conv_example =
     \<lparr>seed = 42, bits = 4, signed = False, dir = ''Player-Data'', p0_file = ''Input-P0-0'',
      p1_file = ''Input-P1-0'', a_rows = 3, a_cols = 3, w_dim = 2\<rparr>"

definition conv_large_kernel :: conv_args where
  \<comment> \<open>\<^verbatim>\<open>--a-rows 4 --w-dim 5\<close>\<close>
  "conv_large_kernel =
     \<lparr>seed = 42, bits = 16, signed = False, dir = ''Player-Data'', p0_file = ''Input-P0-0'',
      p1_file = ''Input-P1-0'', a_rows = 4, a_cols = 8, w_dim = 5\<rparr>"

definition conv_one_file :: conv_args where
  \<comment> \<open>\<^verbatim>\<open>--bits 4 --a-rows 2 --a-cols 2 --w-dim 1 --p1-file Input-P0-0\<close>\<close>
  "conv_one_file =
     \<lparr>seed = 42, bits = 4, signed = False, dir = ''Player-Data'', p0_file = ''Input-P0-0'',
      p1_file = ''Input-P0-0'', a_rows = 2, a_cols = 2, w_dim = 1\<rparr>"

definition conv_two_files :: conv_args where
  \<comment> \<open>\<^verbatim>\<open>--bits 4 --a-rows 2 --a-cols 2 --w-dim 1\<close>\<close>
  "conv_two_files =
     \<lparr>seed = 42, bits = 4, signed = False, dir = ''Player-Data'', p0_file = ''Input-P0-0'',
      p1_file = ''Input-P1-0'', a_rows = 2, a_cols = 2, w_dim = 1\<rparr>"

definition conv_other_names :: conv_args where
  \<comment> \<open>\<^verbatim>\<open>--bits 4 --a-rows 2 --a-cols 2 --w-dim 1 --dir out --p0-file x --p1-file y\<close>\<close>
  "conv_other_names =
     \<lparr>seed = 42, bits = 4, signed = False, dir = ''out'', p0_file = ''x'',
      p1_file = ''y'', a_rows = 2, a_cols = 2, w_dim = 1\<rparr>"


definition linear_example :: linear_args where
  \<comment> \<open>\<^verbatim>\<open>--n 2 --bits 4 --signed\<close>\<close>
  "linear_example =
     \<lparr>seed = 42, bits = 4, signed = True, dir = ''Player-Data'', p0_file = ''Input-P0-0'',
      p1_file = ''Input-P1-0'', dim_n = 2\<rparr>"


definition linear_zero :: linear_args where
  \<comment> \<open>\<^verbatim>\<open>--n 0\<close>\<close>
  "linear_zero =
     \<lparr>seed = 42, bits = 16, signed = False, dir = ''Player-Data'', p0_file = ''Input-P0-0'',
      p1_file = ''Input-P1-0'', dim_n = 0\<rparr>"

definition activation_both_flags :: activation_cmdline where
  \<comment> \<open>\<^verbatim>\<open>--len 2 --bits 4 --signed --unsigned\<close>\<close>
  "activation_both_flags =
     \<lparr>opt_len = Some 2, opt_seed = None, opt_bits = Some 4, flag_signed = True,
      flag_unsigned = True, opt_dir = None, opt_p0_file = None\<rparr>"

definition activation_bad_bits :: activation_args where
  \<comment> \<open>\<^verbatim>\<open>--len 2 --bits 32\<close>\<close>
  "activation_bad_bits =
     \<lparr>seed = 42, bits = 32, signed = True, dir = ''Player-Data'', p0_file = ''Input-P0-0'',
      len = 2, unsigned = False\<rparr>"

definition world1 :: "nat world" where
  \<comment> \<open>a stale party file, a generator in use, earlier output\<close>
  "world1 =
     \<lparr>file_of = (\<lambda>p. p), files = [''Player-Data/Input-P0-0'' \<mapsto> ''99''], rng = 5,
      stdout = [''earlier'']\<rparr>"


section \<open>Decimal text reads back\<close>

lemma of_char_digit_char: "d < 10 \<Longrightarrow> (of_char (digit_char d) :: nat) = 48 + d"
  by (simp add: digit_char_def)

lemma digit_val_digit_char: "d < 10 \<Longrightarrow> digit_val (digit_char d) = Some d"
  by (simp add: digit_val_def of_char_digit_char)

lemma is_space_of_char: "is_space c \<Longrightarrow> (of_char c :: nat) < 48"
  by (auto simp: is_space_def)

lemma digit_char_not_space: "d < 10 \<Longrightarrow> \<not> is_space (digit_char d)"
  using is_space_of_char [of "digit_char d"] by (auto simp: of_char_digit_char)

lemma digit_char_not_minus: "d < 10 \<Longrightarrow> digit_char d \<noteq> CHR ''-''"
proof
  assume "d < 10" and "digit_char d = CHR ''-''"
  then have "(of_char (digit_char d) :: nat) = of_char CHR ''-''" by simp
  with \<open>d < 10\<close> show False by (simp add: of_char_digit_char)
qed

lemma str_nat_digits: "c \<in> set (str_nat k) \<Longrightarrow> \<exists>d<10. c = digit_char d"
proof (induction k arbitrary: c rule: str_nat.induct)
  case (1 k)
  show ?case
  proof (cases "k < 10")
    case True
    with "1.prems" show ?thesis by (auto simp: str_nat.simps [of k])
  next
    case False
    with "1.prems" have "c \<in> set (str_nat (k div 10)) \<or> c = digit_char (k mod 10)"
      by (auto simp: str_nat.simps [of k])
    then show ?thesis
    proof
      assume "c \<in> set (str_nat (k div 10))"
      with False "1.IH" show ?thesis by blast
    next
      assume "c = digit_char (k mod 10)"
      moreover have "k mod 10 < 10" by simp
      ultimately show ?thesis by blast
    qed
  qed
qed

lemma str_nat_nonempty: "str_nat k \<noteq> []"
  by (subst str_nat.simps) simp

lemma parse_digits_snoc:
  "parse_digits acc (xs @ [c]) =
     (case parse_digits acc xs of None \<Rightarrow> None
      | Some m \<Rightarrow> (case digit_val c of None \<Rightarrow> None | Some d \<Rightarrow> Some (10 * m + d)))"
  by (induction xs arbitrary: acc) (auto split: option.splits)

lemma parse_digits_str_nat: "parse_digits 0 (str_nat k) = Some k"
proof (induction k rule: str_nat.induct)
  case (1 k)
  show ?case
  proof (cases "k < 10")
    case True
    then show ?thesis by (simp add: str_nat.simps [of k] digit_val_digit_char)
  next
    case False
    with "1.IH" have "parse_digits 0 (str_nat (k div 10)) = Some (k div 10)" by simp
    with False show ?thesis
      by (simp add: str_nat.simps [of k] parse_digits_snoc digit_val_digit_char)
  qed
qed

lemma parse_int_str_int: "parse_int (str_int i) = Some i"
proof (cases "i < 0")
  case True
  then show ?thesis
    by (simp add: parse_int_def str_int_def str_nat_nonempty parse_digits_str_nat)
next
  case False
  obtain c cs where cs: "str_nat (nat i) = c # cs"
    using str_nat_nonempty [of "nat i"] by (cases "str_nat (nat i)") auto
  then have "c \<in> set (str_nat (nat i))" by simp
  then obtain d where "d < 10" "c = digit_char d" using str_nat_digits by blast
  then have "c \<noteq> CHR ''-''" using digit_char_not_minus by simp
  moreover have "parse_digits 0 (c # cs) = Some (nat i)"
    using parse_digits_str_nat [of "nat i"] cs by simp
  ultimately show ?thesis using False cs
    by (simp add: parse_int_def str_int_def del: parse_digits.simps)
qed

lemma str_int_nonempty: "str_int i \<noteq> []"
  by (simp add: str_int_def str_nat_nonempty)

lemma minus_not_space: "\<not> is_space CHR ''-''"
  by (simp add: is_space_def)

lemma str_int_no_space: "c \<in> set (str_int i) \<Longrightarrow> \<not> is_space c"
  using str_nat_digits digit_char_not_space minus_not_space
  by (fastforce simp: str_int_def split: if_splits)

lemma tokens_word_then:
  "word t \<Longrightarrow> rest = [] \<or> is_space (hd rest) \<Longrightarrow> tokens (t @ rest) = t # tokens rest"
proof (induction t)
  case Nil
  then show ?case by (simp add: word_def)
next
  case (Cons c t)
  show ?case
  proof (cases "t = []")
    case True
    with Cons.prems show ?thesis by (auto simp: word_def)
  next
    case False
    with Cons.prems have "word t" by (simp add: word_def)
    with Cons have IH: "tokens (t @ rest) = t # tokens rest" by simp
    from False \<open>word t\<close> have "\<not> is_space (hd (t @ rest))" by (cases t) (auto simp: word_def)
    with Cons.prems False IH show ?thesis by (simp add: word_def)
  qed
qed

lemma tokens_space: "is_space c \<Longrightarrow> tokens (c # cs) = tokens cs"
  by simp

lemma file_lines_line:
  "nl \<notin> set l \<Longrightarrow> file_lines (l @ nl # rest) = map_option (Cons l) (file_lines rest)"
  by (induction l) (auto split: option.splits list.splits)

section \<open>The loops in closed form\<close>

lemma draws_add:
  "draws R lo hi (a + b) g = draws R lo hi a g @ draws R lo hi b (advance R lo hi a g)"
  by (induction a arbitrary: g) (auto split: prod.splits)

lemma advance_add:
  "advance R lo hi (a + b) g = advance R lo hi b (advance R lo hi a g)"
  by (induction a arbitrary: g) auto

lemma length_draws: "length (draws R lo hi k g) = k"
  by (induction k arbitrary: g) (auto split: prod.splits)

lemma str_r_range_eq:
  "str_r_range R lo hi k w =
     (map str_int (draws R lo hi k (rng w)), w\<lparr>rng := advance R lo hi k (rng w)\<rparr>)"
  by (induction k arbitrary: w) (auto simp: r_def split: prod.splits)

lemma f_write_eq:
  "f_write p s w = w\<lparr>files := (files w)(file_of w p \<mapsto> content w p @ s)\<rparr>"
  by (simp add: f_write_def content_def file_at_def)

lemma write_row_eq:
  "write_row R lo hi p cols w =
     w\<lparr>files := (files w)(file_of w p \<mapsto>
          content w p @ row_text (draws R lo hi (nat cols) (rng w))),
       rng := advance R lo hi (nat cols) (rng w)\<rparr>"
  by (simp add: write_row_def str_r_range_eq f_write_eq content_def file_at_def row_text_def)

lemma matrix_text_Cons: "matrix_text (x # A) = row_text x @ matrix_text A"
  by (simp add: matrix_text_def)

lemma matrix_text_Nil: "matrix_text [] = []"
  by (simp add: matrix_text_def)

lemma write_rows_eq:
  "files w (file_of w p) = Some c \<Longrightarrow>
   write_rows R lo hi p cols k w =
     w\<lparr>files := (files w)(file_of w p \<mapsto> c @
           matrix_text (chunks (nat cols) k (draws R lo hi (k * nat cols) (rng w)))),
       rng := advance R lo hi (k * nat cols) (rng w)\<rparr>"
proof (induction k arbitrary: w c)
  case 0
  then show ?case by (simp add: matrix_text_Nil map_upd_triv)
next
  case (Suc k)
  define d where "d = draws R lo hi (nat cols) (rng w)"
  define w1 where "w1 = write_row R lo hi p cols w"
  have w1: "w1 = w\<lparr>files := (files w)(file_of w p \<mapsto> c @ row_text d),
                    rng := advance R lo hi (nat cols) (rng w)\<rparr>"
    using Suc.prems by (simp add: w1_def d_def write_row_eq content_def file_at_def)
  then have "files w1 (file_of w1 p) = Some (c @ row_text d)" by simp
  then have "write_rows R lo hi p cols k w1 =
     w1\<lparr>files := (files w1)(file_of w1 p \<mapsto> (c @ row_text d) @
           matrix_text (chunks (nat cols) k (draws R lo hi (k * nat cols) (rng w1)))),
       rng := advance R lo hi (k * nat cols) (rng w1)\<rparr>"
    by (rule Suc.IH)
  moreover have "write_rows R lo hi p cols (Suc k) w = write_rows R lo hi p cols k w1"
    by (simp add: w1_def)
  ultimately have "write_rows R lo hi p cols (Suc k) w =
     w1\<lparr>files := (files w1)(file_of w1 p \<mapsto> (c @ row_text d) @
           matrix_text (chunks (nat cols) k (draws R lo hi (k * nat cols) (rng w1)))),
       rng := advance R lo hi (k * nat cols) (rng w1)\<rparr>"
    by (rule trans [rotated])
  also have "\<dots> = w\<lparr>files := (files w)(file_of w p \<mapsto> c @
           matrix_text (chunks (nat cols) (Suc k) (draws R lo hi (Suc k * nat cols) (rng w)))),
       rng := advance R lo hi (Suc k * nat cols) (rng w)\<rparr>"
    unfolding w1 by (simp add: d_def draws_add advance_add length_draws matrix_text_Cons)
  finally show ?case .
qed

lemma write_values_eq:
  "files w (file_of w p) = Some c \<Longrightarrow>
   write_values R lo hi p k w =
     w\<lparr>files := (files w)(file_of w p \<mapsto> c @ matrix_text (chunks 1 k (draws R lo hi k (rng w)))),
       rng := advance R lo hi k (rng w)\<rparr>"
proof (induction k arbitrary: w c)
  case 0
  then show ?case by (simp add: matrix_text_Nil map_upd_triv)
next
  case (Suc k)
  obtain v g where vg: "random_randint R lo hi (rng w) = (v, g)"
    by (cases "random_randint R lo hi (rng w)")
  define w1 where "w1 = f_write p (str_int v @ [nl]) (w\<lparr>rng := g\<rparr>)"
  have w1: "w1 = w\<lparr>files := (files w)(file_of w p \<mapsto> c @ row_text [v]), rng := g\<rparr>"
    using Suc.prems by (simp add: w1_def f_write_eq content_def file_at_def row_text_def)
  then have "files w1 (file_of w1 p) = Some (c @ row_text [v])" by simp
  then have "write_values R lo hi p k w1 =
     w1\<lparr>files := (files w1)(file_of w1 p \<mapsto> (c @ row_text [v]) @
           matrix_text (chunks 1 k (draws R lo hi k (rng w1)))),
       rng := advance R lo hi k (rng w1)\<rparr>"
    by (rule Suc.IH)
  moreover have "write_values R lo hi p (Suc k) w = write_values R lo hi p k w1"
    using vg by (simp add: w1_def r_def)
  ultimately have "write_values R lo hi p (Suc k) w =
     w1\<lparr>files := (files w1)(file_of w1 p \<mapsto> (c @ row_text [v]) @
           matrix_text (chunks 1 k (draws R lo hi k (rng w1)))),
       rng := advance R lo hi k (rng w1)\<rparr>"
    by (rule trans [rotated])
  also have "\<dots> = w\<lparr>files := (files w)(file_of w p \<mapsto> c @
           matrix_text (chunks 1 (Suc k) (draws R lo hi (Suc k) (rng w)))),
       rng := advance R lo hi (Suc k) (rng w)\<rparr>"
    unfolding w1 using vg by (simp add: matrix_text_Cons)
  finally show ?case .
qed

lemma take_draws_add: "take a (draws R lo hi (a + b) g) = draws R lo hi a g"
  by (simp add: draws_add length_draws)

lemma drop_draws_add: "drop a (draws R lo hi (a + b) g) = draws R lo hi b (advance R lo hi a g)"
  by (simp add: draws_add length_draws)

lemma activation_generate_eq:
  "activation_generate R E a w =
     (let w1 = w\<lparr>rng := random_seed R (seed a)\<rparr>;
          p0 = path_join (dir a) (p0_file a);
          rg = draw_range (Threshold a)
      in if len a \<le> 0 then (Inl (SystemExit ''LEN must be positive.''), w)
         else if bits a \<le> 0 \<or> bits a > 31 then (Inl (SystemExit bits_msg), w1)
         else if E (Makedirs (dir a)) then (Inl (OSError (Makedirs (dir a))), w1)
         else if E (OpenW p0) then (Inl (OSError (OpenW p0)), w1)
         else (Inr (rg, p0),
               w\<lparr>files := store_all (zip (map (file_of w) (output_paths (Threshold a))) (party_texts R (Threshold a))) (files w),
                 rng := advance R (fst rg) (snd rg) (nat (len a)) (random_seed R (seed a))\<rparr>))"
  by (simp add: activation_generate_def Let_def os_makedirs_def open_w_def all_draws_def
      write_values_eq [where c = "[]"] split: prod.splits)

lemma conv_generate_eq:
  "conv_generate R E a w =
     (let w1 = w\<lparr>rng := random_seed R (seed a)\<rparr>;
          p0 = path_join (dir a) (p0_file a);
          p1 = path_join (dir a) (p1_file a);
          rg = draw_range (Convolution a)
      in if a_rows a \<le> 0 \<or> a_cols a \<le> 0 \<or> w_dim a \<le> 0 then (Inl (SystemExit positive_msg), w)
         else if w_dim a > a_rows a \<or> w_dim a > a_cols a
           then (Inl (SystemExit (valid_conv_msg (w_dim a) (a_rows a) (a_cols a))), w)
         else if bits a \<le> 0 \<or> bits a > 31 then (Inl (SystemExit bits_msg), w1)
         else if E (Makedirs (dir a)) then (Inl (OSError (Makedirs (dir a))), w1)
         else if E (OpenW p0) then (Inl (OSError (OpenW p0)), w1)
         else if E (OpenW p1) then
           (Inl (OSError (OpenW p1)),
            w\<lparr>files := (files w)(file_of w p0 \<mapsto> hd (party_texts R (Convolution a))),
              rng := advance R (fst rg) (snd rg) (nat (a_rows a) * nat (a_cols a)) (random_seed R (seed a))\<rparr>)
         else (Inr (rg, p0, p1),
               w\<lparr>files := store_all (zip (map (file_of w) (output_paths (Convolution a))) (party_texts R (Convolution a))) (files w),
                 rng := advance R (fst rg) (snd rg) (sum_list (draw_counts (Convolution a))) (random_seed R (seed a))\<rparr>))"
  by (simp add: conv_generate_def Let_def os_makedirs_def open_w_def all_draws_def
      write_rows_eq [where c = "[]"] take_draws_add drop_draws_add advance_add split: prod.splits)

lemma py_lshift_one: "0 \<le> k \<Longrightarrow> py_lshift 1 k = 2 ^ nat k"
  by (simp add: py_lshift_def)

lemma chunks_snoc: "chunks c (Suc k) xs = chunks c k xs @ [take c (drop (k * c) xs)]"
proof (induction k arbitrary: xs)
  case 0
  show ?case by simp
next
  case (Suc k)
  have "chunks c (Suc (Suc k)) xs = take c xs # chunks c (Suc k) (drop c xs)" by simp
  also have "\<dots> = take c xs # (chunks c k (drop c xs) @ [take c (drop (k * c) (drop c xs))])"
    by (simp only: Suc.IH)
  also have "\<dots> = chunks c (Suc k) xs @ [take c (drop (Suc k * c) xs)]"
    by (simp add: add.commute)
  finally show ?case .
qed

lemma chunks_take: "chunks c k (take (k * c) xs) = chunks c k xs"
proof (induction k arbitrary: xs)
  case 0
  show ?case by simp
next
  case (Suc k)
  have "drop c (take (Suc k * c) xs) = take (k * c) (drop c xs)"
    by (simp add: drop_take)
  with Suc.IH [of "drop c xs"] show ?case by simp
qed

lemma chunks_one: "chunks c (Suc 0) xs = [take c xs]"
  by simp

lemma matrix_text_append: "matrix_text (A @ B) = matrix_text A @ matrix_text B"
  by (simp add: matrix_text_def)

lemma linear_p1_text:
  "matrix_text (chunks k (Suc k) (draws R lo hi (k * k + k) g)) =
     matrix_text (chunks k k (draws R lo hi (k * k) g))
       @ row_text (draws R lo hi k (advance R lo hi (k * k) g))"
proof -
  have "chunks k k (draws R lo hi (k * k + k) g) = chunks k k (draws R lo hi (k * k) g)"
    using chunks_take [of k k "draws R lo hi (k * k + k) g"] by (simp add: take_draws_add)
  moreover have "take k (drop (k * k) (draws R lo hi (k * k + k) g)) =
      draws R lo hi k (advance R lo hi (k * k) g)"
    by (simp add: drop_draws_add length_draws)
  ultimately show ?thesis
    by (simp only: chunks_snoc matrix_text_append) (simp add: matrix_text_def)
qed

lemma linear_generate_eq:
  "linear_generate R E a w =
     (let w1 = w\<lparr>rng := random_seed R (seed a)\<rparr>;
          p0 = path_join (dir a) (p0_file a);
          p1 = path_join (dir a) (p1_file a);
          rg = draw_range (Linear a)
      in if bits a \<le> 0 \<or> bits a > 31 then (Inl (SystemExit bits_msg), w1)
         else if E (Makedirs (dir a)) then (Inl (OSError (Makedirs (dir a))), w1)
         else if E (OpenW p0) then (Inl (OSError (OpenW p0)), w1)
         else if E (OpenW p1) then
           (Inl (OSError (OpenW p1)),
            w\<lparr>files := (files w)(file_of w p0 \<mapsto> hd (party_texts R (Linear a))),
              rng := advance R (fst rg) (snd rg) (nat (dim_n a)) (random_seed R (seed a))\<rparr>)
         else (Inr (rg, p0, p1),
               w\<lparr>files := store_all (zip (map (file_of w) (output_paths (Linear a))) (party_texts R (Linear a))) (files w),
                 rng := advance R (fst rg) (snd rg) (sum_list (draw_counts (Linear a))) (random_seed R (seed a))\<rparr>))"
  by (simp add: linear_generate_def Let_def os_makedirs_def open_w_def all_draws_def
      write_rows_eq [where c = "[]"] write_row_eq content_def file_at_def take_draws_add drop_draws_add
      advance_add chunks_one linear_p1_text matrix_text_def [of "[x]" for x]
      del: chunks.simps split: prod.splits)

section \<open>The summary cannot undo a write\<close>

lemma activation_summary_pass:
  "fst (try_except_pass (activation_summary E a lo hi p0) w) = Inr () \<and>
   files (snd (try_except_pass (activation_summary E a lo hi p0) w)) = files w \<and>
   rng (snd (try_except_pass (activation_summary E a lo hi p0) w)) = rng w"
  by (simp add: activation_summary_def try_except_pass_def bind_io_def path_stat_size_def
      print_def split: option.splits)

lemma conv_summary_pass:
  "fst (try_except_pass (conv_summary E a lo hi p0 p1) w) = Inr () \<and>
   files (snd (try_except_pass (conv_summary E a lo hi p0 p1) w)) = files w \<and>
   rng (snd (try_except_pass (conv_summary E a lo hi p0 p1) w)) = rng w"
  by (simp add: conv_summary_def try_except_pass_def bind_io_def path_stat_size_def
      print_def Let_def split: option.splits)

lemma linear_summary_pass:
  "fst (try_except_pass (linear_summary E a lo hi p0 p1) w) = Inr () \<and>
   files (snd (try_except_pass (linear_summary E a lo hi p0 p1) w)) = files w \<and>
   rng (snd (try_except_pass (linear_summary E a lo hi p0 p1) w)) = rng w"
  by (simp add: linear_summary_def try_except_pass_def bind_io_def path_stat_size_def
      print_def split: option.splits)

lemma run_generate:
  "fst (run R E sc w) = fst (generate R E sc w) \<and>
   files (snd (run R E sc w)) = files (snd (generate R E sc w)) \<and>
   rng (snd (run R E sc w)) = rng (snd (generate R E sc w))"
proof (cases sc)
  case (Threshold a)
  show ?thesis
  proof (cases "activation_generate R E a w")
    case (Pair res w1)
    then show ?thesis using Threshold activation_summary_pass [of E a _ _ _ w1]
      by (cases res) (auto simp: activation_main_def bind_io_def)
  qed
next
  case (Convolution a)
  show ?thesis
  proof (cases "conv_generate R E a w")
    case (Pair res w1)
    then show ?thesis using Convolution conv_summary_pass [of E a _ _ _ _ w1]
      by (cases res) (auto simp: conv_main_def bind_io_def)
  qed
next
  case (Linear a)
  show ?thesis
  proof (cases "linear_generate R E a w")
    case (Pair res w1)
    then show ?thesis using Linear linear_summary_pass [of E a _ _ _ _ w1]
      by (cases res) (auto simp: linear_main_def bind_io_def)
  qed
qed

lemma generate_ok:
  assumes "accepted sc" and "os_permits E sc"
  shows "generate R E sc w =
     (Inr (), w\<lparr>files := store_all (zip (map (file_of w) (output_paths sc)) (party_texts R sc)) (files w),
               rng := advance R (fst (draw_range sc)) (snd (draw_range sc))
                        (sum_list (draw_counts sc)) (random_seed R (prng_seed sc))\<rparr>)"
proof (cases sc)
  case (Threshold a)
  with assms show ?thesis
    by (simp add: os_permits_def bind_io_def activation_generate_eq Let_def)
next
  case (Convolution a)
  with assms show ?thesis
    by (simp add: os_permits_def bind_io_def conv_generate_eq Let_def)
next
  case (Linear a)
  with assms show ?thesis
    by (simp add: os_permits_def bind_io_def linear_generate_eq Let_def)
qed

lemma generate_ok_iff:
  "fst (generate R E sc w) = Inr () \<longleftrightarrow> accepted sc \<and> os_permits E sc"
proof (cases sc)
  case (Threshold a)
  then show ?thesis
    by (auto simp: os_permits_def bind_io_def activation_generate_eq Let_def)
next
  case (Convolution a)
  then show ?thesis
    by (auto simp: os_permits_def bind_io_def conv_generate_eq Let_def)
next
  case (Linear a)
  then show ?thesis
    by (auto simp: os_permits_def bind_io_def linear_generate_eq Let_def)
qed

lemma generate_rejects:
  assumes "\<not> accepted sc"
  shows "\<exists>msg. fst (generate R E sc w) = Inl (SystemExit msg) \<and>
           files (snd (generate R E sc w)) = files w \<and>
           stdout (snd (generate R E sc w)) = stdout w"
proof (cases sc)
  case (Threshold a)
  with assms show ?thesis
    by (auto simp: bind_io_def activation_generate_eq Let_def)
next
  case (Convolution a)
  with assms show ?thesis
    by (auto simp: bind_io_def conv_generate_eq Let_def)
next
  case (Linear a)
  with assms show ?thesis
    by (auto simp: bind_io_def linear_generate_eq Let_def)
qed

lemma run_stdout_on_error:
  assumes "fst (generate R E sc w) = Inl e"
  shows "snd (run R E sc w) = snd (generate R E sc w)"
proof (cases sc)
  case (Threshold a)
  with assms show ?thesis
    by (cases "activation_generate R E a w")
      (auto simp: bind_io_def activation_main_def split: sum.splits)
next
  case (Convolution a)
  with assms show ?thesis
    by (cases "conv_generate R E a w")
      (auto simp: bind_io_def conv_main_def split: sum.splits)
next
  case (Linear a)
  with assms show ?thesis
    by (cases "linear_generate R E a w")
      (auto simp: bind_io_def linear_main_def split: sum.splits)
qed

section \<open>Written matrices read back\<close>

lemma word_str_int: "word (str_int i)"
  using str_int_no_space by (auto simp: word_def str_int_nonempty)

lemma space_is_space: "is_space CHR '' ''" and nl_is_space: "is_space nl"
  by (simp_all add: is_space_def)

lemma tokens_row:
  "rest = [] \<or> is_space (hd rest) \<Longrightarrow>
   tokens (str_join '' '' (map str_int vs) @ rest) = map str_int vs @ tokens rest"
proof (induction vs rule: induct_list012)
  case 1
  show ?case by simp
next
  case (2 v)
  then show ?case by (simp add: tokens_word_then word_str_int)
next
  case (3 v v' vs)
  have "tokens (str_int v @ CHR '' '' # (str_join '' '' (map str_int (v' # vs)) @ rest)) =
      str_int v # tokens (CHR '' '' # (str_join '' '' (map str_int (v' # vs)) @ rest))"
    by (rule tokens_word_then) (simp_all add: word_str_int space_is_space)
  also have "\<dots> = str_int v # tokens (str_join '' '' (map str_int (v' # vs)) @ rest)"
    by (simp add: space_is_space)
  also have "\<dots> = str_int v # map str_int (v' # vs) @ tokens rest"
    using 3 by simp
  finally show ?case by simp
qed

lemma parse_all_map: "(\<And>x. f (g x) = Some x) \<Longrightarrow> parse_all f (map g xs) = Some xs"
  by (induction xs) auto

lemma parse_row_line: "parse_row (str_join '' '' (map str_int vs)) = Some vs"
  using tokens_row [of "[]" vs] by (simp add: parse_row_def parse_all_map parse_int_str_int)

lemma str_int_no_nl: "nl \<notin> set (str_int i)"
  using str_int_no_space nl_is_space by blast

lemma line_no_nl: "nl \<notin> set (str_join '' '' (map str_int vs))"
  by (induction vs rule: induct_list012) (auto simp: str_int_no_nl)

lemma file_lines_matrix:
  "file_lines (matrix_text A) = Some (map (\<lambda>vs. str_join '' '' (map str_int vs)) A)"
proof (induction A)
  case Nil
  show ?case by (simp add: matrix_text_Nil)
next
  case (Cons vs A)
  have "file_lines (str_join '' '' (map str_int vs) @ nl # matrix_text A) =
      map_option (Cons (str_join '' '' (map str_int vs))) (file_lines (matrix_text A))"
    by (rule file_lines_line) (rule line_no_nl)
  with Cons show ?case by (simp add: matrix_text_Cons row_text_def)
qed

lemma parse_file_matrix: "parse_file (matrix_text A) = Some A"
proof -
  have "parse_all parse_row (map (\<lambda>vs. str_join '' '' (map str_int vs)) A) = Some A"
    by (rule parse_all_map) (rule parse_row_line)
  then show ?thesis by (simp add: parse_file_def file_lines_matrix)
qed

lemma tokens_matrix: "tokens (matrix_text A) = map str_int (concat A)"
proof (induction A)
  case Nil
  show ?case by (simp add: matrix_text_Nil)
next
  case (Cons vs A)
  have "tokens (str_join '' '' (map str_int vs) @ nl # matrix_text A) =
      map str_int vs @ tokens (nl # matrix_text A)"
    by (rule tokens_row) (simp add: nl_is_space)
  with Cons show ?case by (simp add: matrix_text_Cons row_text_def nl_is_space)
qed

lemma file_ints_matrix: "file_ints (matrix_text A) = Some (concat A)"
  by (simp add: file_ints_def tokens_matrix parse_all_map parse_int_str_int)

lemma length_chunks: "length (chunks c k xs) = k"
  by (induction k arbitrary: xs) auto

lemma rows_chunks: "k * c \<le> length xs \<Longrightarrow> row \<in> set (chunks c k xs) \<Longrightarrow> length row = c"
proof (induction k arbitrary: xs)
  case 0
  then show ?case by simp
next
  case (Suc k)
  from Suc.prems(1) have c: "c \<le> length xs" and k: "k * c \<le> length (drop c xs)" by auto
  from Suc.prems(2) have "row = take c xs \<or> row \<in> set (chunks c k (drop c xs))" by simp
  then show ?case
  proof
    assume "row = take c xs"
    with c show ?thesis by simp
  next
    assume "row \<in> set (chunks c k (drop c xs))"
    with k show ?thesis by (rule Suc.IH)
  qed
qed

lemma concat_chunks: "concat (chunks c k xs) = take (k * c) xs"
proof (induction k arbitrary: xs)
  case 0
  show ?case by simp
next
  case (Suc k)
  have "take c xs @ take (k * c) (drop c xs) = take (c + k * c) xs"
    by (simp add: take_add)
  with Suc show ?case by simp
qed

lemma has_shape_chunks: "k * c \<le> length xs \<Longrightarrow> has_shape k c (matrix_text (chunks c k xs))"
  by (auto simp: has_shape_def parse_file_matrix length_chunks list_all_iff rows_chunks)

lemma draws_in_range:
  "randint_in_range R \<Longrightarrow> lo \<le> hi \<Longrightarrow> v \<in> set (draws R lo hi k g) \<Longrightarrow> lo \<le> v \<and> v \<le> hi"
proof (induction k arbitrary: g)
  case 0
  then show ?case by simp
next
  case (Suc k)
  obtain x g1 where x: "random_randint R lo hi g = (x, g1)" by (cases "random_randint R lo hi g")
  with Suc.prems(1,2) have "lo \<le> x \<and> x \<le> hi"
    unfolding randint_in_range_def by (metis fst_conv)
  with Suc x show ?case by auto
qed

section \<open>Which files a run touches\<close>

lemma store_all_miss: "p \<notin> fst ` set ps \<Longrightarrow> store_all ps m p = m p"
proof (induction ps arbitrary: m)
  case Nil
  show ?case by simp
next
  case (Cons pc ps)
  obtain q c where pc: "pc = (q, c)" by (cases pc)
  from Cons.prems have "p \<noteq> q" and "p \<notin> fst ` set ps" by (auto simp: pc)
  then have "store_all ps (m(q \<mapsto> c)) p = (m(q \<mapsto> c)) p" by (simp add: Cons.IH)
  with \<open>p \<noteq> q\<close> show ?case by (simp add: pc)
qed

lemma store_all_hit:
  "p \<in> fst ` set ps \<Longrightarrow> \<exists>c. (p, c) \<in> set ps \<and> store_all ps m p = Some c"
proof (induction ps arbitrary: m)
  case Nil
  then show ?case by simp
next
  case (Cons pc ps)
  obtain q c where pc: "pc = (q, c)" by (cases pc)
  have step: "store_all (pc # ps) m p = store_all ps (m(q \<mapsto> c)) p" by (simp add: pc)
  show ?case
  proof (cases "p \<in> fst ` set ps")
    case True
    then obtain c' where "(p, c') \<in> set ps" and "store_all ps (m(q \<mapsto> c)) p = Some c'"
      using Cons.IH by blast
    then have "(p, c') \<in> set (pc # ps) \<and> store_all (pc # ps) m p = Some c'"
      by (simp only: step) simp
    then show ?thesis by blast
  next
    case False
    with Cons.prems have "p = q" by (auto simp: pc)
    moreover from False have "store_all ps (m(q \<mapsto> c)) p = (m(q \<mapsto> c)) p"
      by (rule store_all_miss)
    ultimately have "(p, c) \<in> set (pc # ps) \<and> store_all (pc # ps) m p = Some c"
      by (simp only: step) (simp add: pc)
    then show ?thesis by blast
  qed
qed

lemma store_all_cases:
  "store_all ps m p = m p \<or> (\<exists>c. (p, c) \<in> set ps \<and> store_all ps m p = Some c)"
  using store_all_miss [of p ps m] store_all_hit [of p ps m] by blast

lemma store_all_indep:
  "p \<in> fst ` set ps \<Longrightarrow> store_all ps m p = store_all ps m' p"
proof (induction ps arbitrary: m m')
  case Nil
  then show ?case by simp
next
  case (Cons pc ps)
  obtain q c where pc: "pc = (q, c)" by (cases pc)
  have step: "store_all (pc # ps) f x = store_all ps (f(q \<mapsto> c)) x" for f x
    by (simp add: pc)
  show ?case
  proof (cases "p \<in> fst ` set ps")
    case True
    then have "store_all ps (m(q \<mapsto> c)) p = store_all ps (m'(q \<mapsto> c)) p"
      by (rule Cons.IH)
    then show ?thesis by (simp only: step)
  next
    case False
    with Cons.prems have "p = q" by (auto simp: pc)
    moreover from False have "store_all ps (m(q \<mapsto> c)) p = (m(q \<mapsto> c)) p"
      and "store_all ps (m'(q \<mapsto> c)) p = (m'(q \<mapsto> c)) p"
      by (rule store_all_miss)+
    ultimately show ?thesis by (simp only: step) simp
  qed
qed

lemma length_party_texts: "length (party_texts R sc) = length (output_paths sc)"
  by (cases sc) (simp_all add: Let_def)

lemma party_texts_segment:
  "t \<in> set (party_texts R sc) \<Longrightarrow> \<exists>A. t = matrix_text A \<and> sublist (concat A) (all_draws R sc)"
proof (cases sc)
  case (Threshold a)
  assume "t \<in> set (party_texts R sc)"
  with Threshold have "t = matrix_text (chunks 1 (nat (len a)) (all_draws R sc))" by simp
  moreover have "sublist (take n xs) xs" for n and xs :: "int list"
    by (rule prefix_imp_sublist) (rule take_is_prefix)
  ultimately show ?thesis by (auto simp: concat_chunks)
next
  case (Convolution a)
  assume "t \<in> set (party_texts R sc)"
  moreover have "sublist (take n (take k xs)) xs" for n k and xs :: "int list"
    by (metis prefix_imp_sublist take_is_prefix prefix_order.trans)
  moreover have "sublist (take n (drop k xs)) xs" for n k and xs :: "int list"
    by (metis sublist_order.order.trans prefix_imp_sublist take_is_prefix sublist_drop)
  ultimately show ?thesis using Convolution
    by (auto simp: Let_def concat_chunks)
next
  case (Linear a)
  assume "t \<in> set (party_texts R sc)"
  moreover have "sublist (take n (take k xs)) xs" for n k and xs :: "int list"
    by (metis prefix_imp_sublist take_is_prefix prefix_order.trans)
  moreover have "sublist (take n (drop k xs)) xs" for n k and xs :: "int list"
    by (metis sublist_order.order.trans prefix_imp_sublist take_is_prefix sublist_drop)
  ultimately show ?thesis using Linear
    by (auto simp: Let_def concat_chunks simp del: chunks.simps)
qed

lemma value_range_le: "1 \<le> b \<Longrightarrow> fst (value_range b s) \<le> snd (value_range b s)"
  by (simp add: value_range_def py_lshift_one)

lemma draw_range_le: "accepted sc \<Longrightarrow> fst (draw_range sc) \<le> snd (draw_range sc)"
  by (cases sc) (simp_all add: value_range_le)

lemma all_draws_in_range:
  "randint_in_range R \<Longrightarrow> accepted sc \<Longrightarrow> v \<in> set (all_draws R sc) \<Longrightarrow>
   fst (draw_range sc) \<le> v \<and> v \<le> snd (draw_range sc)"
  unfolding all_draws_def by (rule draws_in_range) (simp_all add: draw_range_le)

lemma generate_files_prefix:
  "\<exists>k. files (snd (generate R E sc w)) =
         store_all (take k (zip (map (file_of w) (output_paths sc)) (party_texts R sc))) (files w) \<and>
       (0 < k \<longrightarrow> accepted sc)"
proof (cases "accepted sc \<and> os_permits E sc")
  case True
  then have "generate R E sc w =
      (Inr (), w\<lparr>files := store_all (zip (map (file_of w) (output_paths sc)) (party_texts R sc)) (files w),
                rng := advance R (fst (draw_range sc)) (snd (draw_range sc))
                         (sum_list (draw_counts sc)) (random_seed R (prng_seed sc))\<rparr>)"
    by (simp add: generate_ok)
  then have "files (snd (generate R E sc w)) =
      store_all (take (length (output_paths sc)) (zip (map (file_of w) (output_paths sc)) (party_texts R sc))) (files w)"
    by simp
  moreover have "0 < length (output_paths sc)" by (cases sc) simp_all
  ultimately show ?thesis using True by blast
next
  case False
  show ?thesis
  proof (cases sc)
    case (Threshold a)
    with False have "files (snd (generate R E sc w)) = store_all (take 0 (zip (map (file_of w) (output_paths sc)) (party_texts R sc))) (files w)"
      by (auto simp: bind_io_def activation_generate_eq Let_def os_permits_def)
    then show ?thesis by blast
  next
    case (Convolution a)
    show ?thesis
    proof (cases "accepted sc \<and> \<not> E (Makedirs (dir a)) \<and> \<not> E (OpenW (path_join (dir a) (p0_file a)))")
      case True
      with False Convolution have "files (snd (generate R E sc w)) = store_all (take 1 (zip (map (file_of w) (output_paths sc)) (party_texts R sc))) (files w)"
        by (auto simp: bind_io_def conv_generate_eq Let_def os_permits_def)
      with True show ?thesis by blast
    next
      case no: False
      with Convolution have "files (snd (generate R E sc w)) = store_all (take 0 (zip (map (file_of w) (output_paths sc)) (party_texts R sc))) (files w)"
        by (auto simp: bind_io_def conv_generate_eq Let_def os_permits_def)
      then show ?thesis by blast
    qed
  next
    case (Linear a)
    show ?thesis
    proof (cases "accepted sc \<and> \<not> E (Makedirs (dir a)) \<and> \<not> E (OpenW (path_join (dir a) (p0_file a)))")
      case True
      with False Linear have "files (snd (generate R E sc w)) = store_all (take 1 (zip (map (file_of w) (output_paths sc)) (party_texts R sc))) (files w)"
        by (auto simp: bind_io_def linear_generate_eq Let_def os_permits_def simp del: chunks.simps)
      with True show ?thesis by blast
    next
      case no: False
      with Linear have "files (snd (generate R E sc w)) = store_all (take 0 (zip (map (file_of w) (output_paths sc)) (party_texts R sc))) (files w)"
        by (auto simp: bind_io_def linear_generate_eq Let_def os_permits_def)
      then show ?thesis by blast
    qed
  qed
qed

lemma generate_file_of: "file_of (snd (generate R E sc w)) = file_of w"
proof (cases sc)
  case (Threshold a)
  then show ?thesis by (simp add: bind_io_def activation_generate_eq Let_def)
next
  case (Convolution a)
  then show ?thesis by (simp add: bind_io_def conv_generate_eq Let_def)
next
  case (Linear a)
  then show ?thesis by (simp add: bind_io_def linear_generate_eq Let_def)
qed

lemma summary_file_of:
  "file_of (snd (try_except_pass (activation_summary E a lo hi p0) w)) = file_of w"
  "file_of (snd (try_except_pass (conv_summary E b lo hi p0 p1) w)) = file_of w"
  "file_of (snd (try_except_pass (linear_summary E c lo hi p0 p1) w)) = file_of w"
  by (simp_all add: activation_summary_def conv_summary_def linear_summary_def
      try_except_pass_def bind_io_def path_stat_size_def print_def Let_def split: option.splits)

lemma run_file_of: "file_of (snd (run R E sc w)) = file_of w"
proof (cases sc)
  case (Threshold a)
  show ?thesis
  proof (cases "activation_generate R E a w")
    case (Pair res w1)
    with generate_file_of [of R E sc w] Threshold have "file_of w1 = file_of w"
      by (cases res) (simp_all add: bind_io_def)
    with Pair Threshold show ?thesis
      by (cases res) (auto simp: activation_main_def bind_io_def summary_file_of)
  qed
next
  case (Convolution a)
  show ?thesis
  proof (cases "conv_generate R E a w")
    case (Pair res w1)
    with generate_file_of [of R E sc w] Convolution have "file_of w1 = file_of w"
      by (cases res) (simp_all add: bind_io_def)
    with Pair Convolution show ?thesis
      by (cases res) (auto simp: conv_main_def bind_io_def summary_file_of)
  qed
next
  case (Linear a)
  show ?thesis
  proof (cases "linear_generate R E a w")
    case (Pair res w1)
    with generate_file_of [of R E sc w] Linear have "file_of w1 = file_of w"
      by (cases res) (simp_all add: bind_io_def)
    with Pair Linear show ?thesis
      by (cases res) (auto simp: linear_main_def bind_io_def summary_file_of)
  qed
qed

lemma run_ok_iff: "fst (run R E sc w) = Inr () \<longleftrightarrow> accepted sc \<and> os_permits E sc"
  using run_generate [of R E sc w] by (simp add: generate_ok_iff)

lemma run_ok_files:
  assumes "fst (run R E sc w) = Inr ()"
  shows "files (snd (run R E sc w)) =
           store_all (zip (map (file_of w) (output_paths sc)) (party_texts R sc)) (files w)"
proof -
  from assms have "accepted sc" and "os_permits E sc" by (simp_all add: run_ok_iff)
  then have "files (snd (generate R E sc w)) =
      store_all (zip (map (file_of w) (output_paths sc)) (party_texts R sc)) (files w)"
    by (simp add: generate_ok)
  with run_generate [of R E sc w] show ?thesis by simp
qed

lemma file_at_run:
  "file_at (snd (run R E sc w)) p = files (snd (run R E sc w)) (file_of w p)"
  by (simp add: file_at_def run_file_of)

lemma final_texts:
  assumes "fst (run R E sc w) = Inr ()" and "i < length (output_paths sc)"
  shows "file_at (snd (run R E sc w)) (output_paths sc ! i) =
           Some (if same_file w sc then last (party_texts R sc) else party_texts R sc ! i)"
proof (cases sc)
  case (Threshold a)
  with assms(2) have "i = 0" by simp
  with Threshold show ?thesis
    unfolding file_at_run run_ok_files [OF assms(1)] by simp
next
  case (Convolution a)
  with assms(2) have "i = 0 \<or> i = 1" by auto
  with Convolution show ?thesis
    unfolding file_at_run run_ok_files [OF assms(1)] by (auto simp: Let_def)
next
  case (Linear a)
  with assms(2) have "i = 0 \<or> i = 1" by auto
  with Linear show ?thesis
    unfolding file_at_run run_ok_files [OF assms(1)] by (auto simp: Let_def simp del: chunks.simps)
qed

lemma same_config_texts: "same_config sc1 sc2 \<Longrightarrow> party_texts R sc1 = party_texts R sc2"
  by (cases sc1; cases sc2) (simp_all add: all_draws_def Let_def del: chunks.simps)

lemma same_config_paths: "same_config sc1 sc2 \<Longrightarrow> length (output_paths sc1) = length (output_paths sc2)"
  by (cases sc1; cases sc2) simp_all

section \<open>Range derivation\<close>

text \<open>
  C3. For a bit width between 1 and 31 the derived interval is
  \<open>[-2^(bits-1), 2^(bits-1) - 1]\<close> when signed and \<open>[0, 2^bits - 1]\<close> when unsigned,
  its lower end is never above its upper end, and it is a function of the bit width and
  the signedness alone.
\<close>

theorem value_range_exact:
  "1 \<le> b \<Longrightarrow> b \<le> 31 \<Longrightarrow>
     value_range b True = (- (2 ^ nat (b - 1)), 2 ^ nat (b - 1) - 1) \<and>
     value_range b False = (0, 2 ^ nat b - 1) \<and>
     fst (value_range b s) \<le> snd (value_range b s)"
  by (simp add: value_range_def py_lshift_one)

theorem value_range_exact_witness:
  "value_range 4 True = (- 8, 7) \<and> value_range 4 False = (0, 15) \<and>
   fst (value_range 4 True) \<le> snd (value_range 4 True)"
  using value_range_exact [of 4 True] by simp

section \<open>Rejected parameters\<close>

lemma run_rejects:
  assumes "\<not> accepted sc"
  shows "\<exists>msg. fst (run R E sc w) = Inl (SystemExit msg) \<and>
           files (snd (run R E sc w)) = files w \<and>
           stdout (snd (run R E sc w)) = stdout w"
proof -
  from generate_rejects [OF assms, of R E w]
  obtain msg where g: "fst (generate R E sc w) = Inl (SystemExit msg)"
    and f: "files (snd (generate R E sc w)) = files w"
    and s: "stdout (snd (generate R E sc w)) = stdout w" by blast
  from g have "snd (run R E sc w) = snd (generate R E sc w)" by (rule run_stdout_on_error)
  with g f s run_generate [of R E sc w] show ?thesis by simp
qed

text \<open>
  C8. In every scenario a bit width outside \<open>[1, 31]\<close> ends the run with
  \<^verbatim>\<open>SystemExit\<close> and a message, whatever the operating system would have answered:
  no file is created or changed and nothing is printed.
\<close>

theorem bad_bit_width_rejected:
  assumes "bit_width sc < 1 \<or> 31 < bit_width sc"
  shows "\<exists>msg. fst (run R E sc w) = Inl (SystemExit msg) \<and>
           files (snd (run R E sc w)) = files w \<and>
           stdout (snd (run R E sc w)) = stdout w"
proof (rule run_rejects)
  from assms show "\<not> accepted sc" by (cases sc) auto
qed

theorem bad_bit_width_rejected_witness:
  "(bit_width (Threshold activation_bad_bits) < 1 \<or> 31 < bit_width (Threshold activation_bad_bits)) \<and>
   (\<exists>msg. fst (run lcg (\<lambda>c. True) (Threshold activation_bad_bits) world1) = Inl (SystemExit msg) \<and>
      files (snd (run lcg (\<lambda>c. True) (Threshold activation_bad_bits) world1)) = files world1 \<and>
      stdout (snd (run lcg (\<lambda>c. True) (Threshold activation_bad_bits) world1)) = stdout world1)"
proof -
  have h: "bit_width (Threshold activation_bad_bits) < 1 \<or> 31 < bit_width (Threshold activation_bad_bits)"
    by (simp add: activation_bad_bits_def)
  from bad_bit_width_rejected [OF h] h show ?thesis by blast
qed

lemma mentions_mid: "mentions (pre @ name @ post) name"
  unfolding mentions_def sublist_def by blast

lemma positive_msg_mentions:
  "mentions positive_msg ''W_DIM'' \<and> mentions positive_msg ''A_ROWS'' \<and> mentions positive_msg ''A_COLS''"
proof -
  have "positive_msg = ''A_ROWS, A_COLS, and '' @ ''W_DIM'' @ '' must be positive.''"
    and "positive_msg = [] @ ''A_ROWS'' @ '', A_COLS, and W_DIM must be positive.''"
    and "positive_msg = ''A_ROWS, '' @ ''A_COLS'' @ '', and W_DIM must be positive.''"
    by (simp_all add: positive_msg_def)
  then show ?thesis by (metis mentions_mid)
qed

lemma valid_conv_msg_mentions:
  "mentions (valid_conv_msg x y z) ''W_DIM'' \<and> mentions (valid_conv_msg x y z) ''A_ROWS'' \<and>
   mentions (valid_conv_msg x y z) ''A_COLS'' \<and>
   mentions (valid_conv_msg x y z) (str_int x) \<and> mentions (valid_conv_msg x y z) (str_int y) \<and>
   mentions (valid_conv_msg x y z) (str_int z)"
proof -
  have "valid_conv_msg x y z = [] @ ''W_DIM'' @ (''='' @ str_int x @ '' must be <= A_ROWS='' @ str_int y
       @ '' and <= A_COLS='' @ str_int z @ '' (valid conv).'')"
    and "valid_conv_msg x y z = (''W_DIM='' @ str_int x @ '' must be <= '') @ ''A_ROWS'' @ (''='' @ str_int y
       @ '' and <= A_COLS='' @ str_int z @ '' (valid conv).'')"
    and "valid_conv_msg x y z = (''W_DIM='' @ str_int x @ '' must be <= A_ROWS='' @ str_int y
       @ '' and <= '') @ ''A_COLS'' @ (''='' @ str_int z @ '' (valid conv).'')"
    and "valid_conv_msg x y z = ''W_DIM='' @ str_int x @ ('' must be <= A_ROWS='' @ str_int y
       @ '' and <= A_COLS='' @ str_int z @ '' (valid conv).'')"
    and "valid_conv_msg x y z = (''W_DIM='' @ str_int x @ '' must be <= A_ROWS='') @ str_int y
       @ ('' and <= A_COLS='' @ str_int z @ '' (valid conv).'')"
    and "valid_conv_msg x y z = (''W_DIM='' @ str_int x @ '' must be <= A_ROWS='' @ str_int y
       @ '' and <= A_COLS='') @ str_int z @ '' (valid conv).''"
    by (simp_all add: valid_conv_msg_def)
  then show ?thesis by (metis mentions_mid)
qed

lemma conv_main_rejects:
  "a_rows a \<le> 0 \<or> a_cols a \<le> 0 \<or> w_dim a \<le> 0 \<Longrightarrow>
     conv_main R E a w = (Inl (SystemExit positive_msg), w)"
  "\<not> (a_rows a \<le> 0 \<or> a_cols a \<le> 0 \<or> w_dim a \<le> 0) \<Longrightarrow> a_rows a < w_dim a \<or> a_cols a < w_dim a \<Longrightarrow>
     conv_main R E a w = (Inl (SystemExit (valid_conv_msg (w_dim a) (a_rows a) (a_cols a))), w)"
  by (simp_all add: conv_main_def bind_io_def conv_generate_eq Let_def)

text \<open>
  C5. In the convolution scenario a kernel dimension above \<^verbatim>\<open>A_ROWS\<close> or above
  \<^verbatim>\<open>A_COLS\<close> ends the run with \<^verbatim>\<open>SystemExit\<close>; the message names the
  three dimensions, and the world (files, generator, output) is left exactly as it was.
\<close>

theorem oversized_kernel_rejected:
  assumes "a_rows a < w_dim a \<or> a_cols a < w_dim a"
  shows "\<exists>msg. run R E (Convolution a) w = (Inl (SystemExit msg), w) \<and>
           msg = (if a_rows a \<le> 0 \<or> a_cols a \<le> 0 \<or> w_dim a \<le> 0 then positive_msg
                  else valid_conv_msg (w_dim a) (a_rows a) (a_cols a)) \<and>
           mentions msg ''W_DIM'' \<and> mentions msg ''A_ROWS'' \<and> mentions msg ''A_COLS''"
proof (cases "a_rows a \<le> 0 \<or> a_cols a \<le> 0 \<or> w_dim a \<le> 0")
  case True
  then have "run R E (Convolution a) w = (Inl (SystemExit positive_msg), w)"
    by (simp add: conv_main_rejects(1))
  with True positive_msg_mentions show ?thesis by simp
next
  case False
  with assms have "run R E (Convolution a) w =
      (Inl (SystemExit (valid_conv_msg (w_dim a) (a_rows a) (a_cols a))), w)"
    by (simp add: conv_main_rejects(2))
  with False valid_conv_msg_mentions show ?thesis by simp
qed

theorem oversized_kernel_rejected_witness:
  "(a_rows conv_large_kernel < w_dim conv_large_kernel \<or> a_cols conv_large_kernel < w_dim conv_large_kernel) \<and>
   run lcg no_fault (Convolution conv_large_kernel) world1 =
     (Inl (SystemExit ''W_DIM=5 must be <= A_ROWS=4 and <= A_COLS=8 (valid conv).''), world1)"
proof -
  have h: "a_rows conv_large_kernel < w_dim conv_large_kernel \<or> a_cols conv_large_kernel < w_dim conv_large_kernel"
    by (simp add: conv_large_kernel_def)
  have "str_int 5 = ''5''" and "str_int 4 = ''4''" and "str_int 8 = ''8''"
    by code_simp+
  then have "valid_conv_msg 5 4 8 = ''W_DIM=5 must be <= A_ROWS=4 and <= A_COLS=8 (valid conv).''"
    by (simp add: valid_conv_msg_def)
  with oversized_kernel_rejected [OF h, of lcg no_fault world1] h show ?thesis
    by (simp add: conv_large_kernel_def)
qed

section \<open>Success, determinism and the values written\<close>

lemma output_paths_zip:
  "p \<in> set (output_paths sc) \<Longrightarrow>
   file_of w p \<in> fst ` set (zip (map (file_of w) (output_paths sc)) (party_texts R sc))"
proof -
  assume "p \<in> set (output_paths sc)"
  then have "file_of w p \<in> set (map (file_of w) (output_paths sc))" by simp
  also have "map (file_of w) (output_paths sc) =
      map fst (zip (map (file_of w) (output_paths sc)) (party_texts R sc))"
    by (simp add: map_fst_zip length_party_texts)
  finally show ?thesis by (simp only: set_map)
qed

lemma text_ints_in_range:
  assumes "randint_in_range R" and "accepted sc" and "c \<in> set (party_texts R sc)"
  shows "\<exists>vs. file_ints c = Some vs \<and> sublist vs (all_draws R sc) \<and>
           (\<forall>v\<in>set vs. fst (draw_range sc) \<le> v \<and> v \<le> snd (draw_range sc))"
proof -
  from assms(3) obtain A where c: "c = matrix_text A" and sub: "sublist (concat A) (all_draws R sc)"
    using party_texts_segment by blast
  from sub have "set (concat A) \<subseteq> set (all_draws R sc)" by (rule set_mono_sublist)
  with assms(1,2) have "\<forall>v\<in>set (concat A). fst (draw_range sc) \<le> v \<and> v \<le> snd (draw_range sc)"
    using all_draws_in_range by blast
  with c sub show ?thesis by (simp add: file_ints_matrix)
qed

lemma lcg_in_range: "randint_in_range lcg"
proof -
  have "lo \<le> lo + int g mod (hi - lo + 1) \<and> lo + int g mod (hi - lo + 1) \<le> hi"
    if "lo \<le> hi" for lo hi :: int and g :: nat
  proof -
    from that have pos: "0 < hi - lo + 1" by simp
    then have "0 \<le> int g mod (hi - lo + 1)" and "int g mod (hi - lo + 1) < hi - lo + 1"
      by (rule pos_mod_sign, rule pos_mod_bound)
    then show ?thesis by linarith
  qed
  then show ?thesis by (simp add: randint_in_range_def lcg_def)
qed

lemma matrix_text_inj: "matrix_text A = matrix_text B \<Longrightarrow> A = B"
  by (metis option.inject parse_file_matrix)

text \<open>
  C2, as the code has it. The parameters that the claim fixes do not fix the file names.
  Two completed runs of the convolution generator with the same seed, shape, bit width
  and signedness, one with \<^verbatim>\<open>--p1-file\<close> equal to \<^verbatim>\<open>--p0-file\<close> and one with
  the default names, leave different bytes in the party-0 file: the kernel in the first
  run, the input matrix in the second.
\<close>

theorem runs_differ_counterexample:
  "same_config (Convolution conv_one_file) (Convolution conv_two_files) \<and>
   fst (run lcg no_fault (Convolution conv_one_file) world0) = Inr () \<and>
   fst (run lcg no_fault (Convolution conv_two_files) world0) = Inr () \<and>
   file_at (snd (run lcg no_fault (Convolution conv_one_file) world0))
       (output_paths (Convolution conv_one_file) ! 0)
     \<noteq> file_at (snd (run lcg no_fault (Convolution conv_two_files) world0))
       (output_paths (Convolution conv_two_files) ! 0)"
proof -
  let ?s1 = "Convolution conv_one_file" and ?s2 = "Convolution conv_two_files"
  have sc: "same_config ?s1 ?s2" by (simp add: conv_one_file_def conv_two_files_def)
  have ok1: "fst (run lcg no_fault ?s1 world0) = Inr ()"
    by (subst run_ok_iff) (simp add: os_permits_def no_fault_def conv_one_file_def)
  have ok2: "fst (run lcg no_fault ?s2 world0) = Inr ()"
    by (subst run_ok_iff) (simp add: os_permits_def no_fault_def conv_two_files_def)
  have a1: "same_file world0 ?s1" by (simp add: world0_def conv_one_file_def)
  have a2: "\<not> same_file world0 ?s2" by (simp add: world0_def conv_two_files_def path_join_def)
  define A where "A = chunks 2 2 (take 4 (all_draws lcg ?s2))"
  define W where "W = chunks 1 1 (drop 4 (all_draws lcg ?s2))"
  have t2: "party_texts lcg ?s2 = [matrix_text A, matrix_text W]"
    by (simp add: conv_two_files_def A_def W_def Let_def del: chunks.simps)
  then have t1: "party_texts lcg ?s1 = [matrix_text A, matrix_text W]"
    using same_config_texts [OF sc, of lcg] by simp
  have l1: "0 < length (output_paths ?s1)" and l2: "0 < length (output_paths ?s2)" by simp_all
  have f1: "file_at (snd (run lcg no_fault ?s1 world0)) (output_paths ?s1 ! 0) = Some (matrix_text W)"
    unfolding final_texts [OF ok1 l1] t1 using a1 by simp
  have f2: "file_at (snd (run lcg no_fault ?s2 world0)) (output_paths ?s2 ! 0) = Some (matrix_text A)"
    unfolding final_texts [OF ok2 l2] t2 using a2 by simp
  have "length A = 2" and "length W = 1" by (simp_all add: A_def W_def length_chunks)
  then have "matrix_text W \<noteq> matrix_text A" using matrix_text_inj [of W A] by auto
  with sc ok1 ok2 show ?thesis unfolding f1 f2 by simp
qed

text \<open>
  C2, amended. Two completed runs of the same generator with the same seed, shape, bit
  width and signedness leave the same bytes in every party file, whatever the directory
  and file names, the earlier files, the generator state and the environment of each
  run, provided the two party paths name one file in both runs or two different files in
  both runs.
\<close>

theorem runs_deterministic:
  assumes "same_config sc1 sc2"
    and "fst (run R E1 sc1 w1) = Inr ()" and "fst (run R E2 sc2 w2) = Inr ()"
    and "same_file w1 sc1 = same_file w2 sc2"
    and "i < length (output_paths sc1)"
  shows "file_at (snd (run R E1 sc1 w1)) (output_paths sc1 ! i) =
           file_at (snd (run R E2 sc2 w2)) (output_paths sc2 ! i) \<and>
         file_at (snd (run R E1 sc1 w1)) (output_paths sc1 ! i) \<noteq> None"
proof -
  from assms(1,5) have i2: "i < length (output_paths sc2)" by (simp add: same_config_paths)
  from assms(1) have t: "party_texts R sc1 = party_texts R sc2" by (rule same_config_texts)
  show ?thesis
    unfolding final_texts [OF assms(2,5)] final_texts [OF assms(3) i2] t assms(4) by simp
qed

theorem runs_deterministic_witness:
  "same_config (Convolution conv_two_files) (Convolution conv_other_names) \<and>
   fst (run lcg no_fault (Convolution conv_two_files) world1) = Inr () \<and>
   fst (run lcg stat_fault (Convolution conv_other_names) world0) = Inr () \<and>
   same_file world1 (Convolution conv_two_files) = same_file world0 (Convolution conv_other_names) \<and>
   file_at (snd (run lcg no_fault (Convolution conv_two_files) world1)) ''Player-Data/Input-P0-0'' =
     file_at (snd (run lcg stat_fault (Convolution conv_other_names) world0)) ''out/x'' \<and>
   file_at (snd (run lcg no_fault (Convolution conv_two_files) world1)) ''Player-Data/Input-P1-0'' =
     file_at (snd (run lcg stat_fault (Convolution conv_other_names) world0)) ''out/y'' \<and>
   file_at (snd (run lcg no_fault (Convolution conv_two_files) world1)) ''Player-Data/Input-P0-0'' \<noteq> None"
proof -
  let ?s1 = "Convolution conv_two_files" and ?s2 = "Convolution conv_other_names"
  have sc: "same_config ?s1 ?s2" by (simp add: conv_two_files_def conv_other_names_def)
  have ok1: "fst (run lcg no_fault ?s1 world1) = Inr ()"
    by (subst run_ok_iff) (simp add: os_permits_def no_fault_def conv_two_files_def)
  have ok2: "fst (run lcg stat_fault ?s2 world0) = Inr ()"
    by (subst run_ok_iff) (simp add: os_permits_def stat_fault_def conv_other_names_def)
  have al: "same_file world1 ?s1 = same_file world0 ?s2"
    by (simp add: world0_def world1_def conv_two_files_def conv_other_names_def path_join_def)
  have p1: "output_paths ?s1 = [''Player-Data/Input-P0-0'', ''Player-Data/Input-P1-0'']"
    by (simp add: conv_two_files_def path_join_def)
  have p2: "output_paths ?s2 = [''out/x'', ''out/y'']"
    by (simp add: conv_other_names_def path_join_def)
  have l: "0 < length (output_paths ?s1)" "1 < length (output_paths ?s1)" by (simp_all add: p1)
  have e: "output_paths ?s1 ! 0 = ''Player-Data/Input-P0-0''"
    "output_paths ?s1 ! 1 = ''Player-Data/Input-P1-0''"
    "output_paths ?s2 ! 0 = ''out/x''"
    "output_paths ?s2 ! 1 = ''out/y''"
    unfolding p1 p2 by simp_all
  from runs_deterministic [OF sc ok1 ok2 al l(1), unfolded e]
    runs_deterministic [OF sc ok1 ok2 al l(2), unfolded e] sc ok1 ok2 al
  show ?thesis by blast
qed

text \<open>
  C4. Whenever a run completes, and also for any file a failing run has changed, the
  file reads back as a list of integers; that list is a contiguous piece of the sequence
  of values drawn after seeding, value for value, and every one of them lies in the
  interval \<open>[lo, hi]\<close> of the run. The generator is assumed to keep the contract of
  \<^verbatim>\<open>random.randint\<close>.
\<close>

theorem written_values_in_range:
  assumes "randint_in_range R"
    and "fst (run R E sc w) = Inr () \<and> p \<in> set (output_paths sc)
         \<or> file_at (snd (run R E sc w)) p \<noteq> file_at w p"
  shows "\<exists>c vs. file_at (snd (run R E sc w)) p = Some c \<and> file_ints c = Some vs \<and>
           sublist vs (all_draws R sc) \<and>
           (\<forall>v\<in>set vs. fst (draw_range sc) \<le> v \<and> v \<le> snd (draw_range sc))"
proof -
  let ?ps = "zip (map (file_of w) (output_paths sc)) (party_texts R sc)"
  let ?q = "file_of w p"
  have "accepted sc \<and> (\<exists>c. files (snd (run R E sc w)) ?q = Some c \<and> c \<in> set (party_texts R sc))"
    using assms(2)
  proof
    assume ok: "fst (run R E sc w) = Inr () \<and> p \<in> set (output_paths sc)"
    then have "?q \<in> fst ` set ?ps" by (simp add: output_paths_zip)
    then obtain c where "(?q, c) \<in> set ?ps" and "store_all ?ps (files w) ?q = Some c"
      using store_all_hit by blast
    moreover from this(1) have "c \<in> set (party_texts R sc)" by (rule set_zip_rightD)
    ultimately show ?thesis using ok by (simp add: run_ok_files run_ok_iff)
  next
    assume "file_at (snd (run R E sc w)) p \<noteq> file_at w p"
    then have changed: "files (snd (run R E sc w)) ?q \<noteq> files w ?q"
      by (simp add: file_at_run) (simp add: file_at_def)
    obtain k where k: "files (snd (generate R E sc w)) = store_all (take k ?ps) (files w)"
      and acc: "0 < k \<longrightarrow> accepted sc"
      using generate_files_prefix by blast
    from k have f: "files (snd (run R E sc w)) = store_all (take k ?ps) (files w)"
      using run_generate [of R E sc w] by simp
    with changed obtain c where c: "(?q, c) \<in> set (take k ?ps)"
      and s: "store_all (take k ?ps) (files w) ?q = Some c"
      using store_all_cases [of "take k ?ps" "files w" ?q] by auto
    from c have "0 < k" by (cases k) auto
    moreover from c have "(?q, c) \<in> set ?ps" by (rule in_set_takeD)
    then have "c \<in> set (party_texts R sc)" by (rule set_zip_rightD)
    ultimately show ?thesis using acc f s by simp
  qed
  then obtain c where "accepted sc" and "file_at (snd (run R E sc w)) p = Some c"
    and "c \<in> set (party_texts R sc)" unfolding file_at_run by blast
  with text_ints_in_range [OF assms(1)] show ?thesis by blast
qed

theorem written_values_in_range_witness:
  "randint_in_range lcg \<and>
   fst (run lcg no_fault (Linear linear_example) world0) = Inr () \<and>
   ''Player-Data/Input-P1-0'' \<in> set (output_paths (Linear linear_example)) \<and>
   (\<exists>c vs. file_at (snd (run lcg no_fault (Linear linear_example) world0)) ''Player-Data/Input-P1-0'' = Some c \<and>
      file_ints c = Some vs \<and> sublist vs (all_draws lcg (Linear linear_example)) \<and>
      (\<forall>v\<in>set vs. - 8 \<le> v \<and> v \<le> 7))"
proof -
  have a: "fst (run lcg no_fault (Linear linear_example) world0) = Inr ()"
    by (subst run_ok_iff) (simp add: os_permits_def no_fault_def linear_example_def)
  have b: "''Player-Data/Input-P1-0'' \<in> set (output_paths (Linear linear_example))"
    by (simp add: linear_example_def path_join_def)
  have r: "draw_range (Linear linear_example) = (- 8, 7)"
    by (simp add: linear_example_def value_range_def py_lshift_def)
  from a b have "fst (run lcg no_fault (Linear linear_example) world0) = Inr () \<and>
      ''Player-Data/Input-P1-0'' \<in> set (output_paths (Linear linear_example))
      \<or> file_at (snd (run lcg no_fault (Linear linear_example) world0)) ''Player-Data/Input-P1-0''
          \<noteq> file_at world0 ''Player-Data/Input-P1-0''" by simp
  from written_values_in_range [OF lcg_in_range this, unfolded r] a b lcg_in_range
  show ?thesis by (simp del: run.simps output_paths.simps)
qed

section \<open>Summary, flags and the unchecked dimension\<close>

text \<open>
  C9. Once the party files are written, whatever fails while the summary is computed or
  printed (a \<^verbatim>\<open>stat\<close> or a \<^verbatim>\<open>print\<close> that raises) is swallowed: the run
  still returns normally and the files are those the writes left.
\<close>

theorem summary_failure_swallowed:
  assumes "fst (generate R E sc w) = Inr ()"
  shows "fst (run R E sc w) = Inr () \<and>
         files (snd (run R E sc w)) = files (snd (generate R E sc w))"
  using assms run_generate [of R E sc w] by simp

theorem summary_failure_swallowed_witness:
  "fst (generate lcg stat_fault (Convolution conv_example) world0) = Inr () \<and>
   fst (conv_summary stat_fault conv_example 0 15 ''Player-Data/Input-P0-0''
          ''Player-Data/Input-P1-0'' (snd (generate lcg stat_fault (Convolution conv_example) world0)))
     = Inl (OSError (Stat ''Player-Data/Input-P0-0'')) \<and>
   fst (run lcg stat_fault (Convolution conv_example) world0) = Inr () \<and>
   files (snd (run lcg stat_fault (Convolution conv_example) world0)) =
     files (snd (generate lcg stat_fault (Convolution conv_example) world0))"
proof -
  have g: "fst (generate lcg stat_fault (Convolution conv_example) world0) = Inr ()"
    by (subst generate_ok_iff) (simp add: os_permits_def stat_fault_def conv_example_def)
  have "fst (conv_summary stat_fault conv_example 0 15 ''Player-Data/Input-P0-0''
          ''Player-Data/Input-P1-0'' w1) = Inl (OSError (Stat ''Player-Data/Input-P0-0''))" for w1 :: "nat world"
    by (simp add: conv_summary_def bind_io_def path_stat_size_def stat_fault_def)
  with summary_failure_swallowed [OF g] g show ?thesis by blast
qed

lemma activation_run_text:
  assumes "fst (run R E (Threshold a) w) = Inr ()"
  shows "file_at (snd (run R E (Threshold a) w)) (path_join (dir a) (p0_file a)) =
           Some (matrix_text (chunks 1 (nat (len a))
             (draws R (fst (value_range (bits a) (signed a \<and> \<not> unsigned a)))
                (snd (value_range (bits a) (signed a \<and> \<not> unsigned a)))
                (nat (len a)) (random_seed R (seed a)))))"
  using final_texts [OF assms, of 0] by (simp add: all_draws_def)

lemma file_ints_column: "file_ints (matrix_text (chunks 1 (length vs) vs)) = Some vs"
  by (simp add: file_ints_matrix concat_chunks)

text \<open>
  C10. In the threshold generator the parsed \<^verbatim>\<open>signed\<close> is true whether or not
  \<^verbatim>\<open>--signed\<close> was typed. On a completed run the party file holds, one per line,
  exactly the \<^verbatim>\<open>LEN\<close> values that \<^verbatim>\<open>random.randint(lo, hi)\<close> returns after
  seeding, where \<open>[lo, hi]\<close> is the signed interval when \<^verbatim>\<open>--unsigned\<close> is absent
  and \<open>[0, 2^bits - 1]\<close> when \<^verbatim>\<open>--unsigned\<close> is present, alone or together with
  \<^verbatim>\<open>--signed\<close>.
\<close>

theorem unsigned_flag_overrides:
  assumes "fst (run R E (Threshold (activation_parse_args c)) w) = Inr ()"
    and "a = activation_parse_args c"
    and "lo = (if flag_unsigned c then 0 else - (2 ^ nat (bits a - 1)))"
    and "hi = (if flag_unsigned c then 2 ^ nat (bits a) - 1 else 2 ^ nat (bits a - 1) - 1)"
  shows "signed a \<and>
         (\<exists>t. file_at (snd (run R E (Threshold a) w)) (path_join (dir a) (p0_file a)) = Some t \<and>
              has_shape (nat (len a)) 1 t \<and>
              file_ints t = Some (draws R lo hi (nat (len a)) (random_seed R (seed a))))"
proof -
  from assms(1,2) have ok: "fst (run R E (Threshold a) w) = Inr ()" by simp
  then have b: "1 \<le> bits a" by (simp only: run_ok_iff) simp
  have s: "signed a" and u: "unsigned a = flag_unsigned c"
    by (simp_all add: assms(2) activation_parse_args_def)
  with b have r: "value_range (bits a) (signed a \<and> \<not> unsigned a) = (lo, hi)"
    by (simp add: assms(3,4) value_range_def py_lshift_one)
  let ?vs = "draws R lo hi (nat (len a)) (random_seed R (seed a))"
  have "file_at (snd (run R E (Threshold a) w)) (path_join (dir a) (p0_file a)) =
      Some (matrix_text (chunks 1 (nat (len a)) ?vs))"
    using activation_run_text [OF ok] by (simp add: r)
  moreover have "file_ints (matrix_text (chunks 1 (nat (len a)) ?vs)) = Some ?vs"
    using file_ints_column [of ?vs] by (simp add: length_draws)
  moreover have "has_shape (nat (len a)) 1 (matrix_text (chunks 1 (nat (len a)) ?vs))"
    by (rule has_shape_chunks) (simp add: length_draws)
  ultimately show ?thesis using s by blast
qed

theorem unsigned_flag_overrides_witness:
  "flag_signed activation_both_flags \<and> flag_unsigned activation_both_flags \<and>
   fst (run lcg no_fault (Threshold (activation_parse_args activation_both_flags)) world0) = Inr () \<and>
   (\<exists>t. file_at (snd (run lcg no_fault (Threshold (activation_parse_args activation_both_flags)) world0))
          ''Player-Data/Input-P0-0'' = Some t \<and>
        has_shape 2 1 t \<and> file_ints t = Some [10, 9])"
proof -
  let ?a = "activation_parse_args activation_both_flags"
  have a: "?a = \<lparr>seed = 42, bits = 4, signed = True, dir = ''Player-Data'',
      p0_file = ''Input-P0-0'', len = 2, unsigned = True\<rparr>"
    by (simp add: activation_parse_args_def activation_both_flags_def or_default_def)
  have ok: "fst (run lcg no_fault (Threshold ?a) world0) = Inr ()"
    by (subst run_ok_iff) (simp add: a os_permits_def no_fault_def)
  have f: "flag_unsigned activation_both_flags" "flag_signed activation_both_flags"
    by (simp_all add: activation_both_flags_def)
  have lo: "(0::int) = (if flag_unsigned activation_both_flags then 0 else - (2 ^ nat (bits ?a - 1)))"
    and hi: "(15::int) = (if flag_unsigned activation_both_flags then 2 ^ nat (bits ?a) - 1
        else 2 ^ nat (bits ?a - 1) - 1)"
    by (simp_all add: a f)
  have "seed ?a = 42" by (simp add: a)
  moreover have "draws lcg 0 15 (Suc (Suc 0)) (random_seed lcg 42) = [10, 9]"
    by (simp add: lcg_def)
  ultimately have d: "draws lcg 0 15 2 (random_seed lcg (seed ?a)) = [10, 9]"
    by (simp only: numeral_2_eq_2)
  have p: "path_join (dir ?a) (p0_file ?a) = ''Player-Data/Input-P0-0''"
    and n: "nat (len ?a) = 2"
    by (simp_all add: a path_join_def)
  from unsigned_flag_overrides [OF ok refl lo hi, unfolded p n d] ok f show ?thesis by blast
qed

lemma nonpositive_len_rejected:
  "len a \<le> 0 \<Longrightarrow> run R E (Threshold a) w = (Inl (SystemExit ''LEN must be positive.''), w)"
  by (simp add: activation_main_def bind_io_def activation_generate_eq Let_def)

lemma nonpositive_conv_dim_rejected:
  "a_rows a \<le> 0 \<or> a_cols a \<le> 0 \<or> w_dim a \<le> 0 \<Longrightarrow>
   run R E (Convolution a) w = (Inl (SystemExit positive_msg), w)"
  by (simp add: conv_main_rejects(1))

text \<open>
  C1. The threshold and the convolution generator reject a non-positive dimension before
  anything else happens (the two lemmas above). The linear-layer generator has no such
  check: with \<^verbatim>\<open>--n 0\<close> it completes and leaves a file holding one empty line for
  each party.
\<close>

theorem linear_zero_n_writes_files:
  "shape_dims (Linear linear_zero) = [0] \<and>
   fst (run lcg no_fault (Linear linear_zero) world0) = Inr () \<and>
   file_at (snd (run lcg no_fault (Linear linear_zero) world0)) ''Player-Data/Input-P0-0'' = Some [nl] \<and>
   file_at (snd (run lcg no_fault (Linear linear_zero) world0)) ''Player-Data/Input-P1-0'' = Some [nl]"
proof -
  let ?sc = "Linear linear_zero"
  have ok: "fst (run lcg no_fault ?sc world0) = Inr ()"
    by (subst run_ok_iff) (simp add: os_permits_def no_fault_def linear_zero_def)
  have t: "party_texts lcg ?sc = [[nl], [nl]]"
    by (simp add: linear_zero_def matrix_text_def row_text_def)
  have o: "output_paths ?sc = [''Player-Data/Input-P0-0'', ''Player-Data/Input-P1-0'']"
    by (simp add: linear_zero_def path_join_def)
  have e: "output_paths ?sc ! 0 = ''Player-Data/Input-P0-0''"
    "output_paths ?sc ! 1 = ''Player-Data/Input-P1-0''"
    unfolding o by simp_all
  have l: "0 < length (output_paths ?sc)" "1 < length (output_paths ?sc)" unfolding o by simp_all
  have "file_at (snd (run lcg no_fault ?sc world0)) ''Player-Data/Input-P0-0'' = Some [nl]"
    using final_texts [OF ok l(1), unfolded e t] by (simp split: if_splits)
  moreover have "file_at (snd (run lcg no_fault ?sc world0)) ''Player-Data/Input-P1-0'' = Some [nl]"
    using final_texts [OF ok l(2), unfolded e t] by (simp split: if_splits)
  moreover have "shape_dims ?sc = [0]" by (simp add: linear_zero_def)
  ultimately show ?thesis using ok by blast
qed

section \<open>Layout of the party files\<close>









end
